theory Spec2Isabelle
  imports Complex_Main "HOL-Library.Sublist"
begin

section \<open>JavaScript numbers: IEEE 754 binary64\<close>

text \<open>
  The calculator in \<^verbatim>\<open>src/App.tsx\<close> computes with the JavaScript type \<^verbatim>\<open>number\<close>.
  A number is \<^verbatim>\<open>NaN\<close> or a sign together with a magnitude, which is a non-negative
  rational (a finite double, zero included, so that both signed zeros exist) or infinite.
  Every arithmetic operation takes the exact rational result and rounds it to the nearest
  double, ties to even, as IEEE 754 and ECMAScript prescribe.
\<close>

datatype magnitude = Fin rat | Infty

datatype number = NaN | Num bool magnitude

text \<open>Rounding a rational to the nearest integer, ties to the even one.\<close>

definition round_half_even :: "rat \<Rightarrow> int" where
  "round_half_even r =
     (let f = \<lfloor>r\<rfloor>; d = r - of_int f
      in if d < 1 / 2 then f else if 1 / 2 < d then f + 1 else if even f then f else f + 1)"

text \<open>
  \<open>ilog2 j y\<close> is the integer part of the binary logarithm of \<open>y\<close> for
  \<open>1 \<le> y < 2 ^ 2 ^ j\<close>, found one binary digit of the exponent at a time; it is \<open>0\<close>
  for \<open>y < 1\<close>.
\<close>

primrec ilog2 :: "nat \<Rightarrow> rat \<Rightarrow> nat" where
  "ilog2 0 y = 0"
| "ilog2 (Suc j) y =
     (if 2 ^ 2 ^ j \<le> y then 2 ^ j + ilog2 j (y / 2 ^ 2 ^ j) else ilog2 j y)"

text \<open>
  The spacing of the doubles around \<open>x \<ge> 0\<close>: \<open>2 ^ (e - 52)\<close> where \<open>e\<close> is the binary
  exponent of \<open>x\<close>, and \<open>2 ^ - 1074\<close> for every \<open>x\<close> below the least normal number
  \<open>2 ^ - 1022\<close>.
\<close>

definition quantum :: "rat \<Rightarrow> rat" where
  "quantum x = 2 ^ ilog2 11 (x * 2 ^ 1022) / 2 ^ 1074"

text \<open>Round to nearest, ties to even; a result of \<open>2 ^ 1024\<close> or more overflows.\<close>

definition round_magnitude :: "rat \<Rightarrow> magnitude" where
  "round_magnitude x =
     (if 2 ^ 1024 \<le> x then Infty
      else let q = quantum x; v = of_int (round_half_even (x / q)) * q
           in if 2 ^ 1024 \<le> v then Infty else Fin v)"

fun js_mul :: "number \<Rightarrow> number \<Rightarrow> number" where
  "js_mul (Num s (Fin x)) (Num t (Fin y)) = Num (s \<noteq> t) (round_magnitude (x * y))"
| "js_mul (Num s (Fin x)) (Num t Infty) = (if x = 0 then NaN else Num (s \<noteq> t) Infty)"
| "js_mul (Num s Infty) (Num t (Fin y)) = (if y = 0 then NaN else Num (s \<noteq> t) Infty)"
| "js_mul (Num s Infty) (Num t Infty) = Num (s \<noteq> t) Infty"
| "js_mul NaN b = NaN"
| "js_mul a NaN = NaN"

fun js_div :: "number \<Rightarrow> number \<Rightarrow> number" where
  "js_div (Num s (Fin x)) (Num t (Fin y)) =
     (if y = 0 then (if x = 0 then NaN else Num (s \<noteq> t) Infty)
      else Num (s \<noteq> t) (round_magnitude (x / y)))"
| "js_div (Num s (Fin x)) (Num t Infty) = Num (s \<noteq> t) (Fin 0)"
| "js_div (Num s Infty) (Num t (Fin y)) = Num (s \<noteq> t) Infty"
| "js_div (Num s Infty) (Num t Infty) = NaN"
| "js_div NaN b = NaN"
| "js_div a NaN = NaN"

definition signed :: "bool \<Rightarrow> rat \<Rightarrow> rat" where
  "signed s x = (if s then - x else x)"

fun js_add :: "number \<Rightarrow> number \<Rightarrow> number" where
  "js_add (Num s (Fin x)) (Num t (Fin y)) =
     (let r = signed s x + signed t y
      in if r = 0 then Num (s \<and> t) (Fin 0) else Num (r < 0) (round_magnitude \<bar>r\<bar>))"
| "js_add (Num s (Fin x)) (Num t Infty) = Num t Infty"
| "js_add (Num s Infty) (Num t (Fin y)) = Num s Infty"
| "js_add (Num s Infty) (Num t Infty) = (if s = t then Num s Infty else NaN)"
| "js_add NaN b = NaN"
| "js_add a NaN = NaN"

fun js_neg :: "number \<Rightarrow> number" where
  "js_neg NaN = NaN"
| "js_neg (Num s a) = Num (\<not> s) a"

definition js_sub :: "number \<Rightarrow> number \<Rightarrow> number" where
  "js_sub a b = js_add a (js_neg b)"

fun mag_less :: "magnitude \<Rightarrow> magnitude \<Rightarrow> bool" where
  "mag_less (Fin x) (Fin y) = (x < y)"
| "mag_less (Fin x) Infty = True"
| "mag_less Infty b = False"

text \<open>\<^verbatim>\<open>a < b\<close>: false when either side is \<^verbatim>\<open>NaN\<close>; the two zeros are equal.\<close>

fun js_lt :: "number \<Rightarrow> number \<Rightarrow> bool" where
  "js_lt (Num s a) (Num t b) =
     (if s then (if t then mag_less b a else a \<noteq> Fin 0 \<or> b \<noteq> Fin 0)
      else (if t then False else mag_less a b))"
| "js_lt NaN b = False"
| "js_lt a NaN = False"

text \<open>\<^verbatim>\<open>a > b\<close> and \<^verbatim>\<open>a <= b\<close> as ECMAScript derives them from \<^verbatim>\<open>b < a\<close>.\<close>

definition js_gt :: "number \<Rightarrow> number \<Rightarrow> bool" where
  "js_gt a b = js_lt b a"

fun js_le :: "number \<Rightarrow> number \<Rightarrow> bool" where
  "js_le (Num s a) (Num t b) = (\<not> js_lt (Num t b) (Num s a))"
| "js_le NaN b = False"
| "js_le a NaN = False"

fun isFinite :: "number \<Rightarrow> bool" where
  "isFinite (Num s (Fin x)) = True"
| "isFinite (Num s Infty) = False"
| "isFinite NaN = False"

text \<open>A numeric literal of the source: the double nearest to its decimal value.\<close>

definition lit :: "rat \<Rightarrow> number" where
  "lit x = Num (x < 0) (round_magnitude \<bar>x\<bar>)"

section \<open>JavaScript strings and the conversion \<^verbatim>\<open>Number(text)\<close>\<close>

text \<open>
  A string is a list of UTF-16 code units. \<open>str\<close> turns an ASCII literal into one.
\<close>

type_synonym jsstring = "nat list"

definition str :: "string \<Rightarrow> jsstring" where
  "str s = map of_char s"

text \<open>
  White space and line terminators of ECMAScript: what \<^verbatim>\<open>trim\<close> and \<^verbatim>\<open>Number\<close> strip and
  what \<^verbatim>\<open>\s\<close> in a regular expression matches.
\<close>

definition is_ws :: "nat \<Rightarrow> bool" where
  "is_ws c \<longleftrightarrow>
     c = 9 \<or> c = 10 \<or> c = 11 \<or> c = 12 \<or> c = 13 \<or> c = 32 \<or> c = 160 \<or> c = 5760 \<or>
     (8192 \<le> c \<and> c \<le> 8202) \<or> c = 8232 \<or> c = 8233 \<or> c = 8239 \<or> c = 8287 \<or>
     c = 12288 \<or> c = 65279"

definition trim :: "jsstring \<Rightarrow> jsstring" where
  "trim s = rev (dropWhile is_ws (rev (dropWhile is_ws s)))"

definition digit_val :: "nat \<Rightarrow> nat \<Rightarrow> nat option" where
  "digit_val base c =
     (let v = (if 48 \<le> c \<and> c \<le> 57 then Some (c - 48)
               else if 97 \<le> c \<and> c \<le> 102 then Some (c - 87)
               else if 65 \<le> c \<and> c \<le> 70 then Some (c - 55)
               else None)
      in case v of None \<Rightarrow> None | Some d \<Rightarrow> if d < base then Some d else None)"

definition is_digit :: "nat \<Rightarrow> nat \<Rightarrow> bool" where
  "is_digit base c = (digit_val base c \<noteq> None)"

text \<open>The value of a digit string, most significant digit first.\<close>

definition digits_val :: "nat \<Rightarrow> jsstring \<Rightarrow> int" where
  "digits_val base ds =
     foldl (\<lambda>acc c. acc * int base + int (the (digit_val base c))) 0 ds"

text \<open>A non-empty string of digits of the base, and nothing else.\<close>

definition all_digits :: "nat \<Rightarrow> jsstring \<Rightarrow> bool" where
  "all_digits base ds = (ds \<noteq> [] \<and> list_all (is_digit base) ds)"

text \<open>
  \<^verbatim>\<open>0x\<close>, \<^verbatim>\<open>0o\<close> and \<^verbatim>\<open>0b\<close> literals (either case of the letter); they take no sign.
\<close>

definition radix_of :: "nat \<Rightarrow> nat option" where
  "radix_of c =
     (if c = 120 \<or> c = 88 then Some 16
      else if c = 111 \<or> c = 79 then Some 8
      else if c = 98 \<or> c = 66 then Some 2
      else None)"

fun non_decimal :: "jsstring \<Rightarrow> rat option" where
  "non_decimal (z # c # ds) =
     (if z = 48 then
        (case radix_of c of
           None \<Rightarrow> None
         | Some b \<Rightarrow> if all_digits b ds then Some (of_int (digits_val b ds)) else None)
      else None)"
| "non_decimal s = None"

text \<open>
  The exponent part of a decimal literal: nothing, or \<^verbatim>\<open>e\<close>/\<^verbatim>\<open>E\<close>, an optional sign
  and at least one digit, up to the end of the text.
\<close>

fun exponent_part :: "jsstring \<Rightarrow> int option" where
  "exponent_part [] = Some 0"
| "exponent_part (c # r) =
     (if c = 101 \<or> c = 69 then
        (case r of
           [] \<Rightarrow> None
         | d # ds \<Rightarrow>
             if d = 43 then (if all_digits 10 ds then Some (digits_val 10 ds) else None)
             else if d = 45 then (if all_digits 10 ds then Some (- digits_val 10 ds) else None)
             else if all_digits 10 r then Some (digits_val 10 r) else None)
      else None)"

text \<open>
  An unsigned decimal literal: \<^verbatim>\<open>Infinity\<close>, or digits with an optional fraction and an
  optional exponent, with at least one digit before or after the point. The result is the
  exact mathematical value, \<open>None\<close> for infinity.
\<close>

definition unsigned_decimal :: "jsstring \<Rightarrow> rat option option" where
  "unsigned_decimal u =
     (if u = str ''Infinity'' then Some None
      else
        let ip = takeWhile (is_digit 10) u;
            r1 = dropWhile (is_digit 10) u;
            dot = (r1 \<noteq> [] \<and> hd r1 = 46);
            fp = (if dot then takeWhile (is_digit 10) (tl r1) else []);
            r2 = (if dot then dropWhile (is_digit 10) (tl r1) else r1)
        in if ip = [] \<and> fp = [] then None
           else case exponent_part r2 of
                  None \<Rightarrow> None
                | Some e \<Rightarrow>
                    Some (Some (of_int (digits_val 10 (ip @ fp)) * 10 powi (e - int (length fp)))))"

definition signed_decimal :: "jsstring \<Rightarrow> number" where
  "signed_decimal s =
     (let neg = (s \<noteq> [] \<and> hd s = 45);
          u = (if s \<noteq> [] \<and> (hd s = 43 \<or> hd s = 45) then tl s else s)
      in case unsigned_decimal u of
           None \<Rightarrow> NaN
         | Some None \<Rightarrow> Num neg Infty
         | Some (Some v) \<Rightarrow> Num neg (round_magnitude v))"

text \<open>
  \<^verbatim>\<open>Number(value)\<close> for a string argument: white space is stripped at both ends, the
  empty text is \<open>+0\<close>, a text outside the numeric grammar is \<^verbatim>\<open>NaN\<close>.
\<close>

definition Number :: "jsstring \<Rightarrow> number" where
  "Number value =
     (let s = trim value
      in if s = [] then Num False (Fin 0)
         else case non_decimal s of
                Some v \<Rightarrow> Num False (round_magnitude v)
              | None \<Rightarrow> signed_decimal s)"

section \<open>The calculator of \<^verbatim>\<open>src/App.tsx\<close>\<close>

definition CHARGING_EFFICIENCY :: number where
  "CHARGING_EFFICIENCY = lit (9 / 10)"

datatype UnitSystem = US | METRIC

text \<open>The signals: the unit system and the four input texts.\<close>

record signals =
  unitSystem :: UnitSystem
  electricityCost :: jsstring
  efficiencyInput :: jsstring
  fuelPrice :: jsstring
  iceEfficiency :: jsstring

definition parsePositiveNumber :: "jsstring \<Rightarrow> number option" where
  "parsePositiveNumber value =
     (let n = Number value
      in if \<not> isFinite n \<or> js_le n (lit 0) then None else Some n)"

definition electricityCostNum :: "signals \<Rightarrow> number option" where
  "electricityCostNum st = parsePositiveNumber (electricityCost st)"

definition efficiencyNum :: "signals \<Rightarrow> number option" where
  "efficiencyNum st = parsePositiveNumber (efficiencyInput st)"

definition fuelPriceNum :: "signals \<Rightarrow> number option" where
  "fuelPriceNum st = parsePositiveNumber (fuelPrice st)"

definition iceEfficiencyNum :: "signals \<Rightarrow> number option" where
  "iceEfficiencyNum st =
     (if trim (iceEfficiency st) = [] then None
      else parsePositiveNumber (iceEfficiency st))"

record derivation =
  electricCostPerDist :: number
  evFuelEquivalent :: number
  rawEfficiency :: number
  effectiveEfficiency :: number

definition results :: "signals \<Rightarrow> derivation option" where
  "results st =
     (case electricityCostNum st of
        None \<Rightarrow> None
      | Some Ce \<Rightarrow>
     (case efficiencyNum st of
        None \<Rightarrow> None
      | Some E_raw \<Rightarrow>
     (case fuelPriceNum st of
        None \<Rightarrow> None
      | Some Cf \<Rightarrow>
          let E_effective = js_mul E_raw CHARGING_EFFICIENCY;
              electricCostPerDist = js_div Ce E_effective;
              evFuelEquivalent = js_div Cf electricCostPerDist
          in Some \<lparr>electricCostPerDist = electricCostPerDist,
                   evFuelEquivalent = evFuelEquivalent,
                   rawEfficiency = E_raw,
                   effectiveEfficiency = E_effective\<rparr>)))"

record comparison_values =
  gasCostPerDist :: number
  efficiencyDisplay :: number
  savingsPerDist :: number
  percentSavings :: number
  efficiencyFactor :: number

definition comparison :: "signals \<Rightarrow> comparison_values option" where
  "comparison st =
     (case results st of
        None \<Rightarrow> None
      | Some base \<Rightarrow>
     (case iceEfficiencyNum st of
        None \<Rightarrow> None
      | Some IceEffInput \<Rightarrow>
     (case fuelPriceNum st of
        None \<Rightarrow> None
      | Some Cf \<Rightarrow>
          let gasCostPerDist =
                (if unitSystem st = US then js_div Cf IceEffInput
                 else js_div (js_mul Cf IceEffInput) (lit 100));
              efficiencyDisplay = IceEffInput;
              savingsPerDist = js_sub gasCostPerDist (electricCostPerDist base);
              percentSavings =
                (if js_gt gasCostPerDist (lit 0)
                 then js_mul (js_div savingsPerDist gasCostPerDist) (lit 100)
                 else lit 0);
              efficiencyFactor = js_div gasCostPerDist (electricCostPerDist base)
          in Some \<lparr>gasCostPerDist = gasCostPerDist,
                   efficiencyDisplay = efficiencyDisplay,
                   savingsPerDist = savingsPerDist,
                   percentSavings = percentSavings,
                   efficiencyFactor = efficiencyFactor\<rparr>)))"

section \<open>The Gradle patcher of \<^verbatim>\<open>android-create-signed.cjs\<close>\<close>

text \<open>
  The script reads \<^verbatim>\<open>build.gradle.kts\<close> into a string, edits the string in three steps
  and writes it back when it has changed. The file system is modelled by what its calls
  answer; the console by the list of messages printed.
\<close>

definition IMPORTS_TO_ADD :: "jsstring list" where
  "IMPORTS_TO_ADD = [str ''import java.io.FileInputStream'', str ''import java.util.Properties'']"

definition SIGNING_CONFIG_BLOCK :: jsstring where
  \<open>SIGNING_CONFIG_BLOCK = str (
     ''\<newline>'' @
     ''    signingConfigs {\<newline>'' @
     ''        create("release") {\<newline>'' @
     ''            val keystorePropertiesFile = rootProject.file("keystore.properties")\<newline>'' @
     ''            val keystoreProperties = Properties()\<newline>'' @
     ''            if (keystorePropertiesFile.exists()) {\<newline>'' @
     ''                keystoreProperties.load(FileInputStream(keystorePropertiesFile))\<newline>'' @
     ''            }\<newline>'' @
     ''\<newline>'' @
     ''            keyAlias = keystoreProperties["keyAlias"] as String\<newline>'' @
     ''            keyPassword = keystoreProperties["password"] as String\<newline>'' @
     ''            storeFile = file(keystoreProperties["storeFile"] as String)\<newline>'' @
     ''            storePassword = keystoreProperties["password"] as String\<newline>'' @
     ''        }\<newline>'' @
     ''    }\<newline>'')\<close>

definition RELEASE_CONFIG_LINE :: jsstring where
  \<open>RELEASE_CONFIG_LINE = str ''            signingConfig = signingConfigs.getByName("release")''\<close>

text \<open>\<^verbatim>\<open>content.includes(needle)\<close>: the needle occurs as a contiguous piece of the content.\<close>

fun includes_str :: "jsstring \<Rightarrow> jsstring \<Rightarrow> bool" where
  "includes_str [] needle = (needle = [])"
| "includes_str (c # cs) needle = (prefix needle (c # cs) \<or> includes_str cs needle)"

text \<open>
  Both regular expressions have the shape \<^verbatim>\<open>/(kw\s*\{)/\<close>: a fixed word, any run of white
  space, an opening brace. \<open>anchor_at kw s\<close> is the length of the match that starts at the
  head of \<open>s\<close>. The run of white space is matched greedily, and since a brace is not white
  space no shorter run can match.
\<close>

definition anchor_at :: "jsstring \<Rightarrow> jsstring \<Rightarrow> nat option" where
  "anchor_at kw s =
     (if prefix kw s then
        (let r = dropWhile is_ws (drop (length kw) s)
         in if r \<noteq> [] \<and> hd r = 123 then Some (length s - length r + 1) else None)
      else None)"

text \<open>
  The leftmost match, as \<^verbatim>\<open>test\<close> and \<^verbatim>\<open>replace\<close> find it for a regular expression
  without the \<^verbatim>\<open>g\<close> flag: the text before the match, the match (group 1), the text after.
\<close>

fun find_anchor :: "jsstring \<Rightarrow> jsstring \<Rightarrow> (jsstring \<times> jsstring \<times> jsstring) option" where
  "find_anchor kw [] = None"
| "find_anchor kw (c # cs) =
     (case anchor_at kw (c # cs) of
        Some n \<Rightarrow> Some ([], take n (c # cs), drop n (c # cs))
      | None \<Rightarrow>
          (case find_anchor kw cs of
             None \<Rightarrow> None
           | Some (before, matched, after) \<Rightarrow> Some (c # before, matched, after)))"

definition buildTypesRegex :: jsstring where
  "buildTypesRegex = str ''buildTypes''"

definition releaseBlockRegex :: jsstring where
  \<open>releaseBlockRegex = str ''getByName("release")''\<close>

datatype stream = Log | Warn | Err

datatype message =
    GradleFileNotFound | RunTauriAndroidInit
  | CopiedKeystore | ErrorCopyingKeystore
  | KeystoreNotFound | KeystoreExpectedAt | KeystoreBuildUsuallyFails
  | ReadingGradleFile
  | AddedImports | ImportsAlreadyPresent
  | AddedSigningConfigs | BuildTypesNotFound | SigningConfigAlreadyPresent
  | AppliedSigningConfig | ReleaseBlockNotFound | ReleaseAlreadyConfigured
  | UpdatedSuccessfully | AlreadyUpToDate
  | UncaughtException

type_synonym console = "(stream \<times> message) list"

text \<open>Step 2.1: the imports missing from the content are put in front of it.\<close>

definition add_imports :: "jsstring \<Rightarrow> jsstring \<times> console" where
  "add_imports content =
     (let importsString =
            foldl (\<lambda>acc imp. if \<not> includes_str content imp then acc @ imp @ str ''\<newline>'' else acc)
              [] IMPORTS_TO_ADD
      in if 0 < length importsString then (importsString @ content, [(Log, AddedImports)])
         else (content, [(Log, ImportsAlreadyPresent)]))"

text \<open>Step 2.2: the signing block goes before the first \<^verbatim>\<open>buildTypes {\<close>.\<close>

definition add_signing_config :: "jsstring \<Rightarrow> jsstring \<times> console" where
  \<open>add_signing_config content =
     (if \<not> includes_str content (str ''create("release")'') \<or>
         \<not> includes_str content (str ''keystore.properties'')
      then
        (case find_anchor buildTypesRegex content of
           Some (before, matched, after) \<Rightarrow>
             (before @ SIGNING_CONFIG_BLOCK @ str ''\<newline>    '' @ matched @ after,
              [(Log, AddedSigningConfigs)])
         | None \<Rightarrow> (content, [(Err, BuildTypesNotFound)]))
      else (content, [(Log, SigningConfigAlreadyPresent)]))\<close>

text \<open>Step 2.3: the signing line goes right after the first \<^verbatim>\<open>getByName("release") {\<close>.\<close>

definition apply_release_config :: "jsstring \<Rightarrow> jsstring \<times> console" where
  \<open>apply_release_config content =
     (if \<not> includes_str content (str ''signingConfig = signingConfigs.getByName("release")'')
      then
        (case find_anchor releaseBlockRegex content of
           Some (before, matched, after) \<Rightarrow>
             (before @ matched @ str ''\<newline>'' @ RELEASE_CONFIG_LINE @ after,
              [(Log, AppliedSigningConfig)])
         | None \<Rightarrow> (content, [(Err, ReleaseBlockNotFound)]))
      else (content, [(Log, ReleaseAlreadyConfigured)]))\<close>

text \<open>The three steps in the order of the script, with what they print.\<close>

definition patch :: "jsstring \<Rightarrow> jsstring \<times> console" where
  "patch content =
     (let (c1, l1) = add_imports content;
          (c2, l2) = add_signing_config c1;
          (c3, l3) = apply_release_config c2
      in (c3, l1 @ l2 @ l3))"

definition transform :: "jsstring \<Rightarrow> jsstring" where
  "transform content = fst (patch content)"

text \<open>
  What the file system answers: whether \<^verbatim>\<open>existsSync\<close> finds the Gradle file and the
  keystore file, what \<^verbatim>\<open>readFileSync\<close> returns (\<open>None\<close> when it throws), and whether
  \<^verbatim>\<open>copyFileSync\<close> and \<^verbatim>\<open>writeFileSync\<close> throw.
\<close>

record files =
  gradle_exists :: bool
  gradle_read :: "jsstring option"
  gradle_write_throws :: bool
  keystore_exists :: bool
  keystore_copy_throws :: bool

text \<open>
  What a run leaves behind: the exit status of the process, the console, whether the
  keystore file was copied, and the content written to the Gradle file, if any.
\<close>

record outcome =
  status :: nat
  printed :: console
  keystore_copied :: bool
  written :: "jsstring option"

text \<open>
  \<^verbatim>\<open>main()\<close>. Only \<^verbatim>\<open>copyFileSync\<close> is called under \<^verbatim>\<open>try\<close>; an exception of
  \<^verbatim>\<open>readFileSync\<close> or \<^verbatim>\<open>writeFileSync\<close> is not caught, and Node.js ends a process with an
  uncaught exception with status 1.
\<close>

definition main :: "files \<Rightarrow> outcome" where
  "main fs =
     (if \<not> gradle_exists fs then
        \<lparr>status = 1, printed = [(Err, GradleFileNotFound), (Err, RunTauriAndroidInit)],
         keystore_copied = False, written = None\<rparr>
      else
        let (copied, l0) =
              (if keystore_exists fs then
                 (if keystore_copy_throws fs then (False, [(Err, ErrorCopyingKeystore)])
                  else (True, [(Log, CopiedKeystore)]))
               else (False, [(Warn, KeystoreNotFound), (Warn, KeystoreExpectedAt),
                             (Warn, KeystoreBuildUsuallyFails)]));
            l1 = l0 @ [(Log, ReadingGradleFile)]
        in case gradle_read fs of
             None \<Rightarrow>
               \<lparr>status = 1, printed = l1 @ [(Err, UncaughtException)],
                keystore_copied = copied, written = None\<rparr>
           | Some originalContent \<Rightarrow>
               let (content, l2) = patch originalContent
               in if content \<noteq> originalContent then
                    (if gradle_write_throws fs then
                       \<lparr>status = 1, printed = l1 @ l2 @ [(Err, UncaughtException)],
                        keystore_copied = copied, written = None\<rparr>
                     else
                       \<lparr>status = 0, printed = l1 @ l2 @ [(Log, UpdatedSuccessfully)],
                        keystore_copied = copied, written = Some content\<rparr>)
                  else
                    \<lparr>status = 0, printed = l1 @ l2 @ [(Log, AlreadyUpToDate)],
                     keystore_copied = copied, written = None\<rparr>)"

section \<open>Predicates on numbers used in the statements\<close>

text \<open>
  A number that is finite and greater than zero, as \<^verbatim>\<open>parsePositiveNumber\<close> tests it; a
  number that is not less than zero; a number between \<open>2 ^ - 250\<close> and \<open>2 ^ 250\<close>.
\<close>

definition positive_finite :: "number \<Rightarrow> bool" where
  "positive_finite n = (isFinite n \<and> js_gt n (lit 0))"

definition non_negative :: "number \<Rightarrow> bool" where
  "non_negative n = js_le (lit 0) n"

definition ordinary :: "number \<Rightarrow> bool" where
  "ordinary n = (js_le (lit (1 / 2 ^ 250)) n \<and> js_le n (lit (2 ^ 250)))"

section \<open>Inputs of the examples\<close>

text \<open>The scenario of the specification: 0.12 per kWh, 3.5 miles per kWh, 4.00 per gallon, 30 MPG.\<close>

definition scenario :: signals where
  "scenario = \<lparr>unitSystem = US, electricityCost = str ''0.12'', efficiencyInput = str ''3.5'',
     fuelPrice = str ''4.00'', iceEfficiency = str ''30''\<rparr>"

text \<open>A project whose Gradle file has neither anchor and no keystore file, and one without a Gradle file.\<close>

definition bare_project :: files where
  "bare_project = \<lparr>gradle_exists = True, gradle_read = Some (str ''android { }''),
     gradle_write_throws = False, keystore_exists = False, keystore_copy_throws = False\<rparr>"

definition missing_project :: files where
  "missing_project = \<lparr>gradle_exists = False, gradle_read = None,
     gradle_write_throws = False, keystore_exists = False, keystore_copy_throws = False\<rparr>"

text \<open>A project whose Gradle file has the release block and no \<^verbatim>\<open>buildTypes {\<close>, with a keystore file.\<close>

definition release_only_project :: files where
  \<open>release_only_project = \<lparr>gradle_exists = True, gradle_read = Some (str ''getByName("release") {}''),
     gradle_write_throws = False, keystore_exists = True, keystore_copy_throws = False\<rparr>\<close>

section \<open>Rounding: the facts\<close>

subsection \<open>The binary exponent\<close>

lemma ilog2_bounds:
  "1 \<le> y \<Longrightarrow> y < 2 ^ 2 ^ j \<Longrightarrow> 2 ^ ilog2 j y \<le> y \<and> y < 2 ^ (ilog2 j y + 1)"
proof (induction j arbitrary: y)
  case 0
  then show ?case by simp
next
  case (Suc j)
  define P :: rat where "P = 2 ^ 2 ^ j"
  have Ppos: "0 < P" by (simp add: P_def)
  have PP: "(2::rat) ^ 2 ^ Suc j = P * P"
    by (simp add: P_def power_add [symmetric] mult_2)
  show ?case
  proof (cases "P \<le> y")
    case True
    have z1: "1 \<le> y / P" using True Ppos by simp
    have z2: "y / P < P" using Suc.prems(2) Ppos unfolding PP by (simp add: divide_less_eq)
    from Suc.IH [OF z1] z2 have IH: "2 ^ ilog2 j (y / P) \<le> y / P" "y / P < 2 ^ (ilog2 j (y / P) + 1)"
      by (simp_all add: P_def)
    have a: "P * 2 ^ ilog2 j (y / P) \<le> y"
      using IH(1) Ppos by (simp add: le_divide_eq mult.commute)
    have b: "y < P * 2 ^ (ilog2 j (y / P) + 1)"
      using IH(2) Ppos by (simp add: divide_less_eq mult.commute)
    show ?thesis using True a b by (simp add: P_def power_add)
  next
    case False
    then have "y < 2 ^ 2 ^ j" by (simp add: P_def)
    from Suc.IH [OF Suc.prems(1) this] False show ?thesis by (simp add: P_def)
  qed
qed

lemma ilog2_small: "y < 1 \<Longrightarrow> ilog2 j y = 0"
proof (induction j)
  case 0
  show ?case by simp
next
  case (Suc j)
  have "(1::rat) \<le> 2 ^ 2 ^ j" by simp
  with Suc.prems have "\<not> 2 ^ 2 ^ j \<le> y" by linarith
  with Suc show ?case by simp
qed

lemma pow2_unique:
  fixes y :: rat
  assumes "2 ^ a \<le> y" "y < 2 ^ (a + 1)" "2 ^ b \<le> y" "y < 2 ^ (b + 1)"
  shows "a = b"
proof -
  have "(2::rat) ^ a < 2 ^ (b + 1)" using assms by linarith
  then have 1: "a < b + 1" by (rule power_less_imp_less_exp [rotated]) simp
  have "(2::rat) ^ b < 2 ^ (a + 1)" using assms by linarith
  then have 2: "b < a + 1" by (rule power_less_imp_less_exp [rotated]) simp
  from 1 2 show ?thesis by simp
qed

lemma ilog2_eq:
  assumes "2 ^ b \<le> y" "y < 2 ^ (b + 1)" "y < 2 ^ 2 ^ j"
  shows "ilog2 j y = b"
proof -
  have "(1::rat) \<le> 2 ^ b" by simp
  with assms(1) have "1 \<le> y" by linarith
  from ilog2_bounds [OF this assms(3)] assms(1,2) show ?thesis
    by (intro pow2_unique [of _ y]) simp_all
qed

lemma quantum_normal:
  assumes "2 ^ b \<le> x * 2 ^ 1022" "x * 2 ^ 1022 < 2 ^ (b + 1)" "x < 2 ^ 1024"
  shows "quantum x = 2 ^ b / 2 ^ 1074"
proof -
  have "(0::rat) < 2 ^ 1022" by (rule zero_less_power) simp
  from mult_strict_right_mono [OF assms(3) this]
  have "x * 2 ^ 1022 < 2 ^ (1024 + 1022)" unfolding power_add .
  then have "x * 2 ^ 1022 < 2 ^ 2 ^ 11" by simp
  from ilog2_eq [OF assms(1,2) this] show ?thesis by (simp add: quantum_def)
qed

lemma quantum_subnormal:
  assumes "x * 2 ^ 1022 < 1"
  shows "quantum x = 1 / 2 ^ 1074"
  using ilog2_small [OF assms] by (simp add: quantum_def)

subsection \<open>Rounding to the nearest integer\<close>

lemma rhe_cases:
  "round_half_even r = \<lfloor>r\<rfloor> \<and> r - of_int \<lfloor>r\<rfloor> \<le> 1 / 2 \<or>
   round_half_even r = \<lfloor>r\<rfloor> + 1 \<and> 1 / 2 \<le> r - of_int \<lfloor>r\<rfloor>"
  by (auto simp: round_half_even_def Let_def)

lemma rhe_err: "\<bar>of_int (round_half_even r) - r\<bar> \<le> 1 / 2"
proof -
  have "of_int \<lfloor>r\<rfloor> \<le> r" "r < of_int \<lfloor>r\<rfloor> + 1" by linarith+
  with rhe_cases [of r] show ?thesis by auto
qed

lemma rhe_of_int [simp]: "round_half_even (of_int n) = n"
  by (simp add: round_half_even_def)

lemma rhe_mono:
  assumes "r \<le> s"
  shows "round_half_even r \<le> round_half_even s"
proof -
  have fg: "\<lfloor>r\<rfloor> \<le> \<lfloor>s\<rfloor>" using assms by (rule floor_mono)
  show ?thesis
  proof (cases "\<lfloor>r\<rfloor> = \<lfloor>s\<rfloor>")
    case True
    with assms show ?thesis by (auto simp: round_half_even_def Let_def)
  next
    case False
    with fg have "\<lfloor>r\<rfloor> + 1 \<le> \<lfloor>s\<rfloor>" by simp
    with rhe_cases [of r] rhe_cases [of s] show ?thesis by auto
  qed
qed

lemma rhe_ge: "of_int n \<le> r \<Longrightarrow> n \<le> round_half_even r"
  using rhe_mono [of "of_int n" r] by simp

lemma rhe_le: "r \<le> of_int n \<Longrightarrow> round_half_even r \<le> n"
  using rhe_mono [of r "of_int n"] by simp

lemma rhe_half:
  assumes "r \<le> 1 / 2" "0 \<le> r"
  shows "round_half_even r = 0"
proof -
  have "\<lfloor>r\<rfloor> = 0" using assms by (simp add: floor_eq_iff)
  with assms show ?thesis by (simp add: round_half_even_def Let_def)
qed

lemma rhe_pos: "1 / 2 < r \<Longrightarrow> 1 \<le> round_half_even r"
proof -
  assume a: "1 / 2 < r"
  then have f: "0 \<le> \<lfloor>r\<rfloor>" by simp
  show ?thesis
  proof (cases "\<lfloor>r\<rfloor> = 0")
    case True
    with a show ?thesis by (simp add: round_half_even_def Let_def)
  next
    case False
    with f have "1 \<le> \<lfloor>r\<rfloor>" by linarith
    with rhe_cases [of r] show ?thesis by auto
  qed
qed

lemma rhe_eq:
  assumes "\<bar>r - of_int n\<bar> < 1 / 2"
  shows "round_half_even r = n"
proof -
  have "of_int n - 1 / 2 \<le> r" "r \<le> of_int n + 1 / 2" using assms by linarith+
  have a: "n \<le> round_half_even r"
  proof (rule ccontr)
    assume "\<not> n \<le> round_half_even r"
    then have "of_int (round_half_even r) \<le> (of_int n :: rat) - 1" by simp
    with rhe_err [of r] assms show False by linarith
  qed
  have b: "round_half_even r \<le> n"
  proof (rule ccontr)
    assume "\<not> round_half_even r \<le> n"
    then have "(of_int n :: rat) + 1 \<le> of_int (round_half_even r)" by simp
    with rhe_err [of r] assms show False by linarith
  qed
  from a b show ?thesis by simp
qed

subsection \<open>Rounding to the nearest double\<close>

lemma quantum_pos: "0 < quantum x"
  by (simp add: quantum_def)

lemma quantum_ge: "1 / 2 ^ 1074 \<le> quantum x"
proof -
  have "(1::rat) \<le> 2 ^ ilog2 11 (x * 2 ^ 1022)" by (rule one_le_power) simp
  then show ?thesis unfolding quantum_def by (simp add: divide_right_mono)
qed

text \<open>The shape of the spacing: either the subnormal one, or that of the binade of x.\<close>

lemma quantum_shape:
  assumes "x < 2 ^ 1024"
  shows "x * 2 ^ 1022 < 1 \<and> quantum x = 1 / 2 ^ 1074 \<or>
         (\<exists>b. 2 ^ b \<le> x * 2 ^ 1022 \<and> x * 2 ^ 1022 < 2 ^ (b + 1) \<and> quantum x = 2 ^ b / 2 ^ 1074)"
proof (cases "x * 2 ^ 1022 < 1")
  case True
  then show ?thesis by (simp add: quantum_subnormal)
next
  case False
  then have 1: "1 \<le> x * 2 ^ 1022" by simp
  have "(0::rat) < 2 ^ 1022" by (rule zero_less_power) simp
  from mult_strict_right_mono [OF assms this]
  have "x * 2 ^ 1022 < 2 ^ (1024 + 1022)" unfolding power_add .
  then have 2: "x * 2 ^ 1022 < 2 ^ 2 ^ 11" by simp
  from ilog2_bounds [OF 1 2] show ?thesis unfolding quantum_def by blast
qed

lemma round_magnitude_cases:
  "round_magnitude x = Infty \<or>
   round_magnitude x = Fin (of_int (round_half_even (x / quantum x)) * quantum x)"
  by (simp add: round_magnitude_def Let_def)

lemma round_magnitude_FinD:
  assumes "round_magnitude x = Fin v"
  shows "v = of_int (round_half_even (x / quantum x)) * quantum x" "x < 2 ^ 1024" "v < 2 ^ 1024"
  using assms by (auto simp: round_magnitude_def Let_def split: if_splits)

lemma round_error:
  assumes "round_magnitude x = Fin v"
  shows "\<bar>v - x\<bar> \<le> quantum x / 2"
proof -
  let ?q = "quantum x"
  have q: "0 < ?q" by (rule quantum_pos)
  have "v - x = (of_int (round_half_even (x / ?q)) - x / ?q) * ?q"
    using q round_magnitude_FinD(1) [OF assms] by (simp add: left_diff_distrib)
  then have "\<bar>v - x\<bar> = \<bar>of_int (round_half_even (x / ?q)) - x / ?q\<bar> * ?q"
    using q by (simp add: abs_mult)
  also have "\<dots> \<le> 1 / 2 * ?q"
    using rhe_err [of "x / ?q"] q by (intro mult_right_mono) simp_all
  finally show ?thesis by simp
qed

text \<open>Rounding a given number: the exponent and the rounded quotient are supplied and checked.\<close>

lemma round_magnitude_eval:
  assumes "2 ^ b \<le> x * 2 ^ 1022" "x * 2 ^ 1022 < 2 ^ (b + 1)" "x < 2 ^ 1024"
    and "round_half_even (x * 2 ^ 1074 / 2 ^ b) = n"
    and "v = of_int n * 2 ^ b / 2 ^ 1074" "v < 2 ^ 1024"
  shows "round_magnitude x = Fin v"
proof -
  have q: "quantum x = 2 ^ b / 2 ^ 1074" using assms(1-3) by (rule quantum_normal)
  have "x / quantum x = x * 2 ^ 1074 / 2 ^ b" unfolding q by (simp del: power_numeral)
  with assms(4) have "round_half_even (x / quantum x) = n" by simp
  with assms(3,5,6) q show ?thesis
    by (simp add: round_magnitude_def Let_def del: power_numeral)
qed

lemma round_magnitude_eval_sub:
  assumes "x * 2 ^ 1022 < 1"
    and "round_half_even (x * 2 ^ 1074) = n"
    and "v = of_int n / 2 ^ 1074" "v < 2 ^ 1024"
  shows "round_magnitude x = Fin v"
proof -
  have q: "quantum x = 1 / 2 ^ 1074" using assms(1) by (rule quantum_subnormal)
  have "x < 1 / 2 ^ 1022" using assms(1) by (simp add: pos_less_divide_eq del: power_numeral)
  also have "\<dots> \<le> (1::rat)" by (simp del: power_numeral)
  also have "\<dots> \<le> 2 ^ 1024" by (rule one_le_power) simp
  finally have x: "x < 2 ^ 1024" .
  have "x / quantum x = x * 2 ^ 1074" unfolding q by (simp del: power_numeral)
  with assms(2) have "round_half_even (x / quantum x) = n" by simp
  with x assms(3,4) q show ?thesis
    by (simp add: round_magnitude_def Let_def del: power_numeral)
qed

lemma rhe_tie_even:
  assumes "r = of_int n + 1 / 2" "even n"
  shows "round_half_even r = n"
proof -
  have "\<lfloor>r\<rfloor> = n" unfolding assms(1) by (simp add: floor_eq_iff)
  with assms show ?thesis by (simp add: round_half_even_def Let_def)
qed

lemma rhe_tie_odd:
  assumes "r = of_int n - 1 / 2" "even n"
  shows "round_half_even r = n"
proof -
  have "\<lfloor>r\<rfloor> = n - 1" unfolding assms(1) by (simp add: floor_eq_iff)
  with assms show ?thesis by (simp add: round_half_even_def Let_def)
qed

lemma rhe_0 [simp]: "round_half_even 0 = 0"
  using rhe_of_int [of 0] by simp

lemma round_magnitude_0 [simp]: "round_magnitude 0 = Fin 0"
  by (simp add: round_magnitude_def Let_def)

lemma lit_0 [simp]: "lit 0 = Num False (Fin 0)"
  by (simp add: lit_def)

section \<open>Parsing the input texts\<close>

lemmas parse_simps = Number_def trim_def str_def is_ws_def radix_of_def signed_decimal_def
  unsigned_decimal_def all_digits_def is_digit_def digit_val_def digits_val_def Let_def

lemma trim_ws:
  assumes "list_all is_ws value"
  shows "trim value = []"
proof -
  have d: "dropWhile is_ws value = []" using assms by (simp add: list_all_iff)
  show ?thesis unfolding trim_def d by simp
qed

lemma Number_ws: "list_all is_ws value \<Longrightarrow> Number value = Num False (Fin 0)"
  by (simp add: Number_def trim_ws)

lemma parsePositiveNumber_alt:
  "parsePositiveNumber value =
     (if isFinite (Number value) \<and> js_gt (Number value) (lit 0) then Some (Number value) else None)"
proof (cases "Number value")
  case NaN
  then show ?thesis by (simp add: parsePositiveNumber_def)
next
  case (Num s a)
  then show ?thesis by (cases a) (simp_all add: parsePositiveNumber_def js_gt_def)
qed

section \<open>The scenario of the specification, evaluated\<close>

text \<open>Each rounding is certified by its binary exponent and its rounded quotient.\<close>

lemma round_9_10: "round_magnitude (9 / 10) = Fin (8106479329266893 / 9007199254740992)"
  by (rule round_magnitude_eval [where b = 1021 and n = 8106479329266893, OF _ _ _ rhe_eq]) simp_all

lemma round_12_100: "round_magnitude (3 / 25) = Fin (1080863910568919 / 9007199254740992)"
  by (rule round_magnitude_eval [where b = 1018 and n = 8646911284551352, OF _ _ _ rhe_eq]) simp_all

lemma round_7_2: "round_magnitude (7 / 2) = Fin (7 / 2)"
  by (rule round_magnitude_eval [where b = 1023 and n = 7881299347898368, OF _ _ _ rhe_eq]) simp_all

lemma round_4: "round_magnitude (4) = Fin (4)"
  by (rule round_magnitude_eval [where b = 1024 and n = 4503599627370496, OF _ _ _ rhe_eq]) simp_all

lemma round_30: "round_magnitude (30) = Fin (30)"
  by (rule round_magnitude_eval [where b = 1026 and n = 8444249301319680, OF _ _ _ rhe_eq]) simp_all

lemma round_100: "round_magnitude (100) = Fin (100)"
  by (rule round_magnitude_eval [where b = 1028 and n = 7036874417766400, OF _ _ _ rhe_eq]) simp_all

lemma round_105: "round_magnitude (105) = Fin (105)"
  by (rule round_magnitude_eval [where b = 1028 and n = 7388718138654720, OF _ _ _ rhe_eq]) simp_all

lemma round_315_100: "round_magnitude (63 / 20) = Fin (7093169413108531 / 2251799813685248)"
  by (rule round_magnitude_eval [where b = 1023 and n = 7093169413108531, OF _ _ _ rhe_eq]) simp_all

lemma round_E_effective: "round_magnitude (56745355304868251 / 18014398509481984) = Fin (7093169413108531 / 2251799813685248)"
  by (rule round_magnitude_eval [where b = 1023 and n = 7093169413108531, OF _ _ _ rhe_eq]) simp_all

lemma round_electricCostPerDist: "round_magnitude (1080863910568919 / 28372677652434124) = Fin (5490102402889747 / 144115188075855872)"
  by (rule round_magnitude_eval [where b = 1017 and n = 5490102402889747, OF _ _ _ rhe_eq]) simp_all

lemma round_evFuelEquivalent: "round_magnitude (576460752303423488 / 5490102402889747) = Fin (7388718138654721 / 70368744177664)"
  by (rule round_magnitude_eval [where b = 1028 and n = 7388718138654721, OF _ _ _ rhe_eq]) simp_all

lemma round_gasCostPerDist: "round_magnitude (2 / 15) = Fin (4803839602528529 / 36028797018963968)"
  by (rule round_magnitude_eval [where b = 1019 and n = 4803839602528529, OF _ _ _ rhe_eq]) simp_all

lemma round_savingsPerDist: "round_magnitude (13725256007224369 / 144115188075855872) = Fin (857828500451523 / 9007199254740992)"
  by (rule round_magnitude_eval [where b = 1018 and n = 6862628003612184, OF _ _ _ rhe_tie_even]) simp_all

lemma round_savings_ratio: "round_magnitude (3431314001806092 / 4803839602528529) = Fin (6433713753386423 / 9007199254740992)"
  by (rule round_magnitude_eval [where b = 1021 and n = 6433713753386423, OF _ _ _ rhe_eq]) simp_all

lemma round_percentSavings: "round_magnitude (160842843834660575 / 2251799813685248) = Fin (5026338869833143 / 70368744177664)"
  by (rule round_magnitude_eval [where b = 1028 and n = 5026338869833143, OF _ _ _ rhe_eq]) simp_all

lemma round_efficiencyFactor: "round_magnitude (19215358410114116 / 5490102402889747) = Fin (7881299347898369 / 2251799813685248)"
  by (rule round_magnitude_eval [where b = 1023 and n = 7881299347898369, OF _ _ _ rhe_eq]) simp_all

lemmas round_scenario = round_9_10 round_12_100 round_7_2 round_4 round_30 round_100 round_105
  round_315_100 round_E_effective round_electricCostPerDist round_evFuelEquivalent
  round_gasCostPerDist round_savingsPerDist round_savings_ratio round_percentSavings
  round_efficiencyFactor

lemma Number_0_12: "Number (str ''0.12'') = Num False (Fin (1080863910568919 / 9007199254740992))"
  by (simp add: parse_simps round_scenario)

lemma Number_3_5: "Number (str ''3.5'') = Num False (Fin (7 / 2))"
  by (simp add: parse_simps round_scenario)

lemma Number_4_00: "Number (str ''4.00'') = Num False (Fin 4)"
  by (simp add: parse_simps round_scenario)

lemma Number_30: "Number (str ''30'') = Num False (Fin 30)"
  by (simp add: parse_simps round_scenario)

lemmas Number_scenario = Number_0_12 Number_3_5 Number_4_00 Number_30

lemmas memo_defs = electricityCostNum_def efficiencyNum_def fuelPriceNum_def iceEfficiencyNum_def
  parsePositiveNumber_def

lemma scenario_memos:
  "electricityCostNum scenario = Some (Num False (Fin (1080863910568919 / 9007199254740992)))"
  "efficiencyNum scenario = Some (Num False (Fin (7 / 2)))"
  "fuelPriceNum scenario = Some (Num False (Fin 4))"
  "iceEfficiencyNum scenario = Some (Num False (Fin 30))"
     apply (simp_all add: scenario_def memo_defs Number_scenario)
  apply (simp add: trim_def str_def is_ws_def)
  done

lemma scenario_results:
  "results scenario = Some \<lparr>electricCostPerDist = Num False (Fin (5490102402889747 / 144115188075855872)),
     evFuelEquivalent = Num False (Fin (7388718138654721 / 70368744177664)),
     rawEfficiency = Num False (Fin (7 / 2)),
     effectiveEfficiency = Num False (Fin (7093169413108531 / 2251799813685248))\<rparr>"
  by (simp add: results_def scenario_memos CHARGING_EFFICIENCY_def lit_def round_scenario)

lemma scenario_comparison:
  "comparison scenario = Some \<lparr>gasCostPerDist = Num False (Fin (4803839602528529 / 36028797018963968)),
     efficiencyDisplay = Num False (Fin 30),
     savingsPerDist = Num False (Fin (857828500451523 / 9007199254740992)),
     percentSavings = Num False (Fin (5026338869833143 / 70368744177664)),
     efficiencyFactor = Num False (Fin (7881299347898369 / 2251799813685248))\<rparr>"
proof -
  have "unitSystem scenario = US" by (simp add: scenario_def)
  then show ?thesis
    by (simp add: comparison_def scenario_results scenario_memos lit_def round_scenario
        js_sub_def js_gt_def signed_def)
qed

section \<open>The claims about the calculator\<close>

text \<open>
  C5. For every input text, \<^verbatim>\<open>parsePositiveNumber\<close> returns the number that \<^verbatim>\<open>Number\<close>
  parses from the text exactly when that number is finite and strictly greater than zero,
  and returns null otherwise. A text that is empty or made of white space only yields
  null, from \<^verbatim>\<open>parsePositiveNumber\<close> and from the memo of the optional ICE field alike.
\<close>

theorem parsePositiveNumber_finite_positive:
  "parsePositiveNumber value =
     (if isFinite (Number value) \<and> js_gt (Number value) (lit 0) then Some (Number value) else None)
   \<and> (list_all is_ws value \<longrightarrow> parsePositiveNumber value = None)
   \<and> (list_all is_ws (iceEfficiency st) \<longrightarrow> iceEfficiencyNum st = None)"
proof -
  have "parsePositiveNumber value = None" if "list_all is_ws value"
    using that by (simp add: parsePositiveNumber_alt Number_ws js_gt_def)
  moreover have "iceEfficiencyNum st = None" if "list_all is_ws (iceEfficiency st)"
    using that by (simp add: iceEfficiencyNum_def trim_ws)
  ultimately show ?thesis using parsePositiveNumber_alt [of "value"] by blast
qed

theorem parsePositiveNumber_finite_positive_witness:
  "list_all is_ws [32, 9, 160]
   \<and> parsePositiveNumber [32, 9, 160] = None
   \<and> iceEfficiencyNum \<lparr>unitSystem = US, electricityCost = [], efficiencyInput = [],
        fuelPrice = [], iceEfficiency = [32, 9, 160]\<rparr> = None"
proof -
  let ?st = "\<lparr>unitSystem = US, electricityCost = [], efficiencyInput = [],
        fuelPrice = [], iceEfficiency = [32, 9, 160]\<rparr>"
  have ws: "list_all is_ws [32, 9, 160]" by (simp add: is_ws_def)
  from parsePositiveNumber_finite_positive [of "[32, 9, 160]" ?st]
  have "list_all is_ws [32, 9, 160] \<longrightarrow> parsePositiveNumber [32, 9, 160] = None"
    and "list_all is_ws (iceEfficiency ?st) \<longrightarrow> iceEfficiencyNum ?st = None"
    by blast+
  with ws show ?thesis by simp
qed

text \<open>
  C3. Whatever the four input texts are: when one of the three required inputs does not
  parse to a positive finite number, the derivation is null, and so is the comparison;
  when the ICE efficiency is absent or does not parse, the comparison is null. A text
  fails to parse when it is not numeric (\<^verbatim>\<open>NaN\<close>), not finite, zero or negative, or empty.
  A result is a whole record or null, so none is partially populated.
\<close>

theorem parse_failure_absent:
  "(electricityCostNum st = None \<or> efficiencyNum st = None \<or> fuelPriceNum st = None
      \<longrightarrow> results st = None \<and> comparison st = None)
   \<and> (iceEfficiencyNum st = None \<longrightarrow> comparison st = None)
   \<and> (Number value = NaN \<or> \<not> isFinite (Number value) \<or> js_le (Number value) (lit 0)
        \<or> trim value = []
      \<longrightarrow> parsePositiveNumber value = None)"
proof -
  have 1: "results st = None \<and> comparison st = None"
    if "electricityCostNum st = None \<or> efficiencyNum st = None \<or> fuelPriceNum st = None"
  proof -
    from that have "results st = None"
      by (auto simp: results_def split: option.splits)
    then show ?thesis by (simp add: comparison_def)
  qed
  have 2: "comparison st = None" if "iceEfficiencyNum st = None"
    using that by (simp add: comparison_def split: option.splits)
  have 3: "parsePositiveNumber value = None"
    if "Number value = NaN \<or> \<not> isFinite (Number value) \<or> js_le (Number value) (lit 0)
        \<or> trim value = []"
  proof -
    have "Number value = Num False (Fin 0)" if "trim value = []"
      using that by (simp add: Number_def)
    with \<open>_ \<or> _\<close> show ?thesis
      by (auto simp: parsePositiveNumber_def)
  qed
  from 1 2 3 show ?thesis by blast
qed

theorem parse_failure_absent_witness:
  "electricityCostNum (scenario\<lparr>electricityCost := str ''abc''\<rparr>) = None
   \<and> results (scenario\<lparr>electricityCost := str ''abc''\<rparr>) = None
   \<and> comparison (scenario\<lparr>electricityCost := str ''abc''\<rparr>) = None
   \<and> iceEfficiencyNum (scenario\<lparr>iceEfficiency := []\<rparr>) = None
   \<and> comparison (scenario\<lparr>iceEfficiency := []\<rparr>) = None
   \<and> Number (str ''abc'') = NaN \<and> parsePositiveNumber (str ''abc'') = None
   \<and> \<not> isFinite (Number (str ''Infinity'')) \<and> parsePositiveNumber (str ''Infinity'') = None
   \<and> js_le (Number (str ''0'')) (lit 0) \<and> parsePositiveNumber (str ''0'') = None
   \<and> js_le (Number (str ''-4'')) (lit 0) \<and> parsePositiveNumber (str ''-4'') = None"
proof -
  have abc: "Number (str ''abc'') = NaN" by (simp add: parse_simps)
  have inf: "\<not> isFinite (Number (str ''Infinity''))" by (simp add: parse_simps)
  have zero: "js_le (Number (str ''0'')) (lit 0)" by (simp add: parse_simps)
  have neg: "js_le (Number (str ''-4'')) (lit 0)" by (simp add: parse_simps round_4)
  have e: "electricityCostNum (scenario\<lparr>electricityCost := str ''abc''\<rparr>) = None"
    by (simp add: electricityCostNum_def parsePositiveNumber_def abc)
  have i: "iceEfficiencyNum (scenario\<lparr>iceEfficiency := []\<rparr>) = None"
    by (simp add: iceEfficiencyNum_def trim_def)
  from parse_failure_absent [of "scenario\<lparr>electricityCost := str ''abc''\<rparr>" "str ''abc''"]
    parse_failure_absent [of "scenario\<lparr>iceEfficiency := []\<rparr>" "str ''Infinity''"]
    parse_failure_absent [of scenario "str ''0''"]
    parse_failure_absent [of scenario "str ''-4''"]
    abc inf zero neg e i
  show ?thesis by blast
qed

text \<open>
  C4. When the derivation, the ICE efficiency and the fuel price are present, the
  comparison is present, with: the gas cost per distance \<^verbatim>\<open>fuelPrice / iceEfficiency\<close> in the
  US system and \<^verbatim>\<open>(fuelPrice * iceEfficiency) / 100\<close> in the metric one; the savings the gas
  cost minus the electric cost of the derivation; the percentage
  \<^verbatim>\<open>(savings / gasCost) * 100\<close> when the gas cost is greater than zero and 0 otherwise; the
  efficiency factor the gas cost divided by the electric cost. Every operation is the one
  of JavaScript numbers.
\<close>

theorem comparison_formulas:
  assumes "results st = Some base" "iceEfficiencyNum st = Some ice" "fuelPriceNum st = Some Cf"
  shows "\<exists>c. comparison st = Some c
     \<and> gasCostPerDist c =
         (case unitSystem st of US \<Rightarrow> js_div Cf ice | METRIC \<Rightarrow> js_div (js_mul Cf ice) (lit 100))
     \<and> savingsPerDist c = js_sub (gasCostPerDist c) (electricCostPerDist base)
     \<and> percentSavings c =
         (if js_gt (gasCostPerDist c) (lit 0)
          then js_mul (js_div (savingsPerDist c) (gasCostPerDist c)) (lit 100) else lit 0)
     \<and> efficiencyFactor c = js_div (gasCostPerDist c) (electricCostPerDist base)"
  using assms by (cases "unitSystem st") (simp_all add: comparison_def Let_def)

theorem comparison_formulas_witness:
  "results scenario \<noteq> None
   \<and> iceEfficiencyNum scenario = Some (lit 30) \<and> fuelPriceNum scenario = Some (lit 4)
   \<and> (\<exists>c. comparison scenario = Some c
        \<and> gasCostPerDist c = js_div (lit 4) (lit 30)
        \<and> gasCostPerDist c = Num False (Fin (4803839602528529 / 36028797018963968))
        \<and> savingsPerDist c = js_sub (gasCostPerDist c) (js_div (lit (12 / 100)) (lit (315 / 100))))"
proof -
  have u: "unitSystem scenario = US" by (simp add: scenario_def)
  have l: "lit 30 = Num False (Fin 30)" "lit 4 = Num False (Fin 4)"
    "js_div (lit 4) (lit 30) = Num False (Fin (4803839602528529 / 36028797018963968))"
    "js_div (lit (12 / 100)) (lit (315 / 100))
       = Num False (Fin (5490102402889747 / 144115188075855872))"
    by (simp_all add: lit_def round_scenario)
  from comparison_formulas [OF scenario_results scenario_memos(4) scenario_memos(3)]
  obtain c where c: "comparison scenario = Some c"
    "gasCostPerDist c = (case unitSystem scenario of US \<Rightarrow>
        js_div (Num False (Fin 4)) (Num False (Fin 30))
      | METRIC \<Rightarrow> js_div (js_mul (Num False (Fin 4)) (Num False (Fin 30))) (lit 100))"
    "savingsPerDist c = js_sub (gasCostPerDist c)
       (electricCostPerDist \<lparr>electricCostPerDist = Num False (Fin (5490102402889747 / 144115188075855872)),
     evFuelEquivalent = Num False (Fin (7388718138654721 / 70368744177664)),
     rawEfficiency = Num False (Fin (7 / 2)),
     effectiveEfficiency = Num False (Fin (7093169413108531 / 2251799813685248))\<rparr>)"
    by blast
  have g: "gasCostPerDist c = js_div (lit 4) (lit 30)" using c(2) u by (simp only: l UnitSystem.case)
  have s: "savingsPerDist c = js_sub (gasCostPerDist c) (js_div (lit (12 / 100)) (lit (315 / 100)))"
    using c(3) by (simp only: l(4) derivation.simps)
  have "results scenario \<noteq> None" by (simp add: scenario_results)
  moreover have "iceEfficiencyNum scenario = Some (lit 30)" "fuelPriceNum scenario = Some (lit 4)"
    by (simp_all only: l scenario_memos)
  moreover have "gasCostPerDist c = Num False (Fin (4803839602528529 / 36028797018963968))"
    by (simp only: g l(3))
  ultimately show ?thesis using c(1) g s by blast
qed

text \<open>
  C1. For every three present inputs the derivation is present, with the effective
  efficiency \<^verbatim>\<open>rawEfficiency * 0.90\<close>, the electric cost per distance
  \<^verbatim>\<open>electricityCost / effectiveEfficiency\<close> and the fuel-equivalent efficiency
  \<^verbatim>\<open>fuelPrice / electricCostPerDistance\<close>, each the operation of JavaScript numbers. For
  the texts 0.12, 3.5 and 4.00 the effective efficiency is the double 3.15, the electric
  cost is 0.12 / 3.15, which is 0.038095 to six places, and the fuel-equivalent efficiency
  is 105.0 to within the relative precision \<open>2 ^ - 52\<close> of a double.
\<close>

theorem derivation_formulas:
  "(electricityCostNum st = Some Ce \<and> efficiencyNum st = Some E_raw \<and> fuelPriceNum st = Some Cf
      \<longrightarrow> (\<exists>r. results st = Some r
            \<and> effectiveEfficiency r = js_mul E_raw (lit (9 / 10))
            \<and> electricCostPerDist r = js_div Ce (effectiveEfficiency r)
            \<and> evFuelEquivalent r = js_div Cf (electricCostPerDist r)))
   \<and> (electricityCost st = str ''0.12'' \<and> efficiencyInput st = str ''3.5''
        \<and> fuelPrice st = str ''4.00''
      \<longrightarrow> (\<exists>r p v. results st = Some r
            \<and> effectiveEfficiency r = lit (315 / 100)
            \<and> electricCostPerDist r = js_div (lit (12 / 100)) (lit (315 / 100))
            \<and> electricCostPerDist r = Num False (Fin p)
            \<and> \<bar>p - 38095 / 1000000\<bar> < 1 / 1000000
            \<and> evFuelEquivalent r = Num False (Fin v)
            \<and> \<bar>v - 105\<bar> \<le> 105 / 2 ^ 52))"
proof -
  have 1: "\<exists>r. results st = Some r
            \<and> effectiveEfficiency r = js_mul E_raw (lit (9 / 10))
            \<and> electricCostPerDist r = js_div Ce (effectiveEfficiency r)
            \<and> evFuelEquivalent r = js_div Cf (electricCostPerDist r)"
    if "electricityCostNum st = Some Ce \<and> efficiencyNum st = Some E_raw \<and> fuelPriceNum st = Some Cf"
    using that by (simp add: results_def CHARGING_EFFICIENCY_def Let_def)
  have 2: "\<exists>r p v. results st = Some r
            \<and> effectiveEfficiency r = lit (315 / 100)
            \<and> electricCostPerDist r = js_div (lit (12 / 100)) (lit (315 / 100))
            \<and> electricCostPerDist r = Num False (Fin p)
            \<and> \<bar>p - 38095 / 1000000\<bar> < 1 / 1000000
            \<and> evFuelEquivalent r = Num False (Fin v)
            \<and> \<bar>v - 105\<bar> \<le> 105 / 2 ^ 52"
    if "electricityCost st = str ''0.12'' \<and> efficiencyInput st = str ''3.5''
        \<and> fuelPrice st = str ''4.00''"
  proof -
    have m: "electricityCostNum st = Some (Num False (Fin (1080863910568919 / 9007199254740992)))"
      "efficiencyNum st = Some (Num False (Fin (7 / 2)))"
      "fuelPriceNum st = Some (Num False (Fin 4))"
      using that by (simp_all add: memo_defs Number_scenario)
    let ?r = "\<lparr>electricCostPerDist = Num False (Fin (5490102402889747 / 144115188075855872)),
          evFuelEquivalent = Num False (Fin (7388718138654721 / 70368744177664)),
          rawEfficiency = Num False (Fin (7 / 2)),
          effectiveEfficiency = Num False (Fin (7093169413108531 / 2251799813685248))\<rparr>"
    have r: "results st = Some ?r"
      by (simp add: results_def m CHARGING_EFFICIENCY_def lit_def round_scenario)
    show ?thesis
      by (rule exI [of _ ?r], rule exI [of _ "5490102402889747 / 144115188075855872"],
          rule exI [of _ "7388718138654721 / 70368744177664"])
        (simp add: r lit_def round_scenario)
  qed
  from 1 2 show ?thesis by blast
qed

theorem derivation_formulas_witness:
  "electricityCostNum scenario = Some (lit (12 / 100)) \<and> efficiencyNum scenario = Some (lit (7 / 2))
   \<and> fuelPriceNum scenario = Some (lit 4)
   \<and> (\<exists>r. results scenario = Some r
        \<and> effectiveEfficiency r = js_mul (lit (7 / 2)) (lit (9 / 10))
        \<and> effectiveEfficiency r = lit (315 / 100)
        \<and> electricCostPerDist r = js_div (lit (12 / 100)) (lit (315 / 100))
        \<and> evFuelEquivalent r = js_div (lit 4) (js_div (lit (12 / 100)) (lit (315 / 100)))
        \<and> (\<exists>p. electricCostPerDist r = Num False (Fin p) \<and> \<bar>p - 38095 / 1000000\<bar> < 1 / 1000000)
        \<and> (\<exists>v. evFuelEquivalent r = Num False (Fin v) \<and> \<bar>v - 105\<bar> \<le> 105 / 2 ^ 52))"
proof -
  have l: "Num False (Fin (1080863910568919 / 9007199254740992)) = lit (12 / 100)"
    "Num False (Fin (7 / 2)) = lit (7 / 2)" "Num False (Fin 4) = lit 4"
    by (simp_all add: lit_def round_scenario)
  have m: "electricityCostNum scenario = Some (lit (12 / 100))"
    "efficiencyNum scenario = Some (lit (7 / 2))" "fuelPriceNum scenario = Some (lit 4)"
    using scenario_memos by (simp_all only: l)
  have s: "electricityCost scenario = str ''0.12'' \<and> efficiencyInput scenario = str ''3.5''
        \<and> fuelPrice scenario = str ''4.00''"
    by (simp add: scenario_def)
  from derivation_formulas [of scenario "lit (12 / 100)" "lit (7 / 2)" "lit 4"] m s
  obtain r r' p v where r: "results scenario = Some r"
      "effectiveEfficiency r = js_mul (lit (7 / 2)) (lit (9 / 10))"
      "electricCostPerDist r = js_div (lit (12 / 100)) (effectiveEfficiency r)"
      "evFuelEquivalent r = js_div (lit 4) (electricCostPerDist r)"
    and r': "results scenario = Some r'"
      "effectiveEfficiency r' = lit (315 / 100)"
      "electricCostPerDist r' = js_div (lit (12 / 100)) (lit (315 / 100))"
      "electricCostPerDist r' = Num False (Fin p)" "\<bar>p - 38095 / 1000000\<bar> < 1 / 1000000"
      "evFuelEquivalent r' = Num False (Fin v)" "\<bar>v - 105\<bar> \<le> 105 / 2 ^ 52"
    by blast
  from r(1) r'(1) have e: "r' = r" by simp
  from r(3,4) r'(2,3) have "evFuelEquivalent r = js_div (lit 4) (js_div (lit (12 / 100)) (lit (315 / 100)))"
    unfolding e by simp
  with m r r' [unfolded e] show ?thesis by blast
qed

section \<open>Rounding: bounds, monotonicity and relative error\<close>

text \<open>
  The spacing around \<open>x\<close> is \<open>2 ^ b / 2 ^ 1074\<close> for an exponent \<open>b\<close> with
  \<open>x * 2 ^ 1022 < 2 ^ (b + 1)\<close>, and \<open>2 ^ b \<le> x * 2 ^ 1022\<close> unless \<open>b = 0\<close>.
\<close>

lemma quantum_exp:
  assumes "x < 2 ^ 1024"
  obtains b where "quantum x = 2 ^ b / 2 ^ 1074" "x * 2 ^ 1022 < 2 ^ (b + 1)"
    "b = 0 \<or> 2 ^ b \<le> x * 2 ^ 1022" "b \<le> 2045"
proof -
  from quantum_shape [OF assms] consider
    "x * 2 ^ 1022 < 1" "quantum x = 1 / 2 ^ 1074"
    | b where "2 ^ b \<le> x * 2 ^ 1022" "x * 2 ^ 1022 < 2 ^ (b + 1)" "quantum x = 2 ^ b / 2 ^ 1074"
    by blast
  then show thesis
  proof cases
    case 1
    have "x * 2 ^ 1022 < 2 ^ (0 + 1)" using 1(1) by simp
    moreover have "quantum x = 2 ^ 0 / 2 ^ 1074" using 1(2) by simp
    ultimately show thesis using that [of 0] by simp
  next
    case (2 b)
    have "(0::rat) < 2 ^ 1022" by (rule zero_less_power) simp
    from mult_strict_right_mono [OF assms this]
    have "x * 2 ^ 1022 < 2 ^ (1024 + 1022)" unfolding power_add .
    with 2(1) have "(2::rat) ^ b < 2 ^ (1024 + 1022)" by (rule le_less_trans)
    then have "b < 1024 + 1022" by (rule power_less_imp_less_exp [rotated]) simp
    then have "b \<le> 2045" by simp
    with 2 show thesis using that [of b] by simp
  qed
qed

lemma scale_less:
  fixes y :: rat
  assumes "0 < B" "0 < K" "y < 2 * B"
  shows "y * K / B < 2 * K"
proof -
  have "y * K < 2 * B * K" using assms(2,3) by (rule mult_strict_right_mono [rotated])
  then show ?thesis using assms(1) by (simp add: pos_divide_less_eq mult.commute mult.left_commute)
qed

lemma scale_ge:
  fixes y :: rat
  assumes "0 < B" "0 < K" "B \<le> y"
  shows "K \<le> y * K / B"
proof -
  have "B * K \<le> y * K" using assms(2,3) by (simp add: mult_right_mono)
  then show ?thesis using assms(1) by (simp add: pos_le_divide_eq mult.commute)
qed

text \<open>The scaled value \<open>x / quantum x\<close> is below \<open>2 ^ 53\<close>, and at least \<open>2 ^ 52\<close> for a normal \<open>x\<close>.\<close>

lemma scaled_upper:
  assumes "quantum x = 2 ^ b / 2 ^ 1074" "x * 2 ^ 1022 < 2 ^ (b + 1)"
  shows "x / quantum x < 2 ^ 53"
proof -
  have "x / quantum x = (x * 2 ^ 1022) * 2 ^ 52 / 2 ^ b"
    unfolding assms(1) by (simp add: power_add [symmetric] del: power_numeral)
  also have "\<dots> < 2 * 2 ^ 52"
    using assms(2) by (intro scale_less) (simp_all del: power_numeral)
  also have "\<dots> = (2::rat) ^ 53" by simp
  finally show ?thesis .
qed

lemma scaled_lower:
  assumes "quantum x = 2 ^ b / 2 ^ 1074" "2 ^ b \<le> x * 2 ^ 1022"
  shows "2 ^ 52 \<le> x / quantum x"
proof -
  have "(2::rat) ^ 52 \<le> (x * 2 ^ 1022) * 2 ^ 52 / 2 ^ b"
    using assms(2) by (intro scale_ge) (simp_all del: power_numeral)
  also have "\<dots> = x / quantum x"
    unfolding assms(1) by (simp add: power_add [symmetric] del: power_numeral)
  finally show ?thesis .
qed

lemma rhe_scaled_upper:
  assumes "quantum x = 2 ^ b / 2 ^ 1074" "x * 2 ^ 1022 < 2 ^ (b + 1)"
  shows "round_half_even (x / quantum x) \<le> 2 ^ 53"
proof -
  from scaled_upper [OF assms] have "x / quantum x \<le> of_int (2 ^ 53)" by simp
  then show ?thesis by (rule rhe_le)
qed

lemma rhe_scaled_lower:
  assumes "quantum x = 2 ^ b / 2 ^ 1074" "2 ^ b \<le> x * 2 ^ 1022"
  shows "2 ^ 52 \<le> round_half_even (x / quantum x)"
proof -
  from scaled_lower [OF assms] have "of_int (2 ^ 52) \<le> x / quantum x" by simp
  then show ?thesis by (rule rhe_ge)
qed

lemma rhe_nonneg: "0 \<le> r \<Longrightarrow> 0 \<le> round_half_even r"
  using rhe_ge [of 0 r] by simp

subsection \<open>When the rounding is finite, and when it is zero\<close>

text \<open>The largest double.\<close>

lemma round_finite:
  assumes "x \<le> 2 ^ 1024 - 2 ^ 971"
  shows "\<exists>v. round_magnitude x = Fin v"
proof -
  have "(2::rat) ^ 1024 - 2 ^ 971 < 2 ^ 1024" by simp
  with assms have lt: "x < 2 ^ 1024" by (rule le_less_trans)
  from quantum_exp [OF lt] obtain b where b: "quantum x = 2 ^ b / 2 ^ 1074"
    "x * 2 ^ 1022 < 2 ^ (b + 1)" "b \<le> 2045" by blast
  let ?n = "round_half_even (x / quantum x)"
  have "of_int ?n * quantum x < 2 ^ 1024"
  proof (cases "b = 2045")
    case True
    have q: "quantum x = 2 ^ 971" unfolding b(1) True by simp
    have "x / 2 ^ 971 \<le> (2 ^ 1024 - 2 ^ 971) / 2 ^ 971"
      using assms by (simp add: divide_right_mono del: power_numeral)
    also have "\<dots> = of_int (2 ^ 53 - 1)" by simp
    finally have "?n \<le> 2 ^ 53 - 1" unfolding q by (rule rhe_le)
    then have le: "(of_int ?n :: rat) \<le> of_int (2 ^ 53 - 1)" by (simp only: of_int_le_iff)
    have "of_int ?n * quantum x \<le> of_int (2 ^ 53 - 1) * quantum x"
      by (rule mult_right_mono [OF le]) (rule less_imp_le [OF quantum_pos])
    also have "of_int (2 ^ 53 - 1) * quantum x = of_int (2 ^ 53 - 1) * (2 ^ 971 :: rat)"
      by (simp only: q)
    also have "\<dots> < 2 ^ 1024" by simp
    finally show ?thesis .
  next
    case False
    with b(3) have b': "b \<le> 2044" by simp
    from rhe_scaled_upper [OF b(1,2)] have "(of_int ?n :: rat) \<le> of_int (2 ^ 53)"
      by (simp only: of_int_le_iff)
    then have le: "(of_int ?n :: rat) \<le> 2 ^ 53" by simp
    have "of_int ?n * quantum x \<le> 2 ^ 53 * quantum x"
      by (rule mult_right_mono [OF le]) (rule less_imp_le [OF quantum_pos])
    also have "2 ^ 53 * quantum x = 2 ^ 53 * (2 ^ b / 2 ^ 1074 :: rat)" by (simp only: b(1))
    also have "\<dots> \<le> 2 ^ 53 * (2 ^ 2044 / 2 ^ 1074 :: rat)"
      using b' by (intro mult_left_mono divide_right_mono power_increasing) simp_all
    also have "\<dots> < 2 ^ 1024" by simp
    finally show ?thesis .
  qed
  with lt show ?thesis by (simp add: round_magnitude_def Let_def del: power_numeral)
qed

lemma round_zero:
  assumes "0 \<le> x" "x \<le> 1 / 2 ^ 1075"
  shows "round_magnitude x = Fin 0"
proof -
  have "x * 2 ^ 1022 \<le> 1 / 2 ^ 1075 * 2 ^ 1022"
    using assms(2) by (rule mult_right_mono) simp
  also have "\<dots> < (1::rat)" by simp
  finally have s: "x * 2 ^ 1022 < 1" .
  have "x * 2 ^ 1074 \<le> 1 / 2 ^ 1075 * 2 ^ 1074"
    using assms(2) by (rule mult_right_mono) simp
  also have "\<dots> = (1::rat) / 2" by simp
  finally have "round_half_even (x * 2 ^ 1074) = 0"
    using assms(1) by (intro rhe_half) simp_all
  with s show ?thesis by (intro round_magnitude_eval_sub [where n = 0]) simp_all
qed

lemma round_positive:
  assumes "1 / 2 ^ 1075 < x" "round_magnitude x = Fin v"
  shows "1 / 2 ^ 1074 \<le> v"
proof -
  note d = round_magnitude_FinD [OF assms(2)]
  let ?n = "round_half_even (x / quantum x)"
  have x0: "0 < x" using assms(1) by (rule less_trans [rotated]) simp
  have "1 \<le> ?n"
  proof (rule rhe_pos)
    from quantum_exp [OF d(2)] obtain b where b: "quantum x = 2 ^ b / 2 ^ 1074"
      "b = 0 \<or> 2 ^ b \<le> x * 2 ^ 1022" by blast
    from b(2) show "1 / 2 < x / quantum x"
    proof
      assume "b = 0"
      then have q: "quantum x = 1 / 2 ^ 1074" using b(1) by simp
      have "1 / 2 ^ 1075 * 2 ^ 1074 < x * 2 ^ 1074"
        using assms(1) by (rule mult_strict_right_mono) simp
      then show ?thesis unfolding q by simp
    next
      assume "2 ^ b \<le> x * 2 ^ 1022"
      have "(1 / 2 :: rat) < 2 ^ 52" by simp
      then show ?thesis using scaled_lower [OF b(1) \<open>2 ^ b \<le> x * 2 ^ 1022\<close>]
        by (rule less_le_trans)
    qed
  qed
  then have "(1::rat) \<le> of_int ?n" by simp
  then have "1 * quantum x \<le> of_int ?n * quantum x"
    using quantum_pos [of x] by (intro mult_right_mono) simp_all
  then have "quantum x \<le> of_int ?n * quantum x" by simp
  with quantum_ge [of x] have "1 / 2 ^ 1074 \<le> of_int ?n * quantum x" by (rule order_trans)
  then show ?thesis by (simp only: d(1))
qed

lemma round_nonneg:
  assumes "0 \<le> x" "round_magnitude x = Fin v"
  shows "0 \<le> v"
proof -
  note d = round_magnitude_FinD [OF assms(2)]
  have "0 \<le> x / quantum x" using assms(1) quantum_pos [of x] by simp
  from rhe_nonneg [OF this] quantum_pos [of x] show ?thesis unfolding d(1) by simp
qed

subsection \<open>The relative error of a normal result\<close>

lemma round_rel_result:
  assumes "round_magnitude x = Fin v" "1 / 2 ^ 1022 \<le> v"
  shows "\<bar>v - x\<bar> \<le> v / 2 ^ 53"
proof -
  note d = round_magnitude_FinD [OF assms(1)]
  let ?q = "quantum x"
  let ?n = "round_half_even (x / ?q)"
  have "2 ^ 52 * ?q \<le> v"
  proof -
    from quantum_exp [OF d(2)] obtain b where b: "?q = 2 ^ b / 2 ^ 1074"
      "b = 0 \<or> 2 ^ b \<le> x * 2 ^ 1022" by blast
    from b(2) show ?thesis
    proof
      assume "b = 0"
      then have "2 ^ 52 * ?q = 1 / 2 ^ 1022" using b(1) by simp
      with assms(2) show ?thesis by simp
    next
      assume "2 ^ b \<le> x * 2 ^ 1022"
      from rhe_scaled_lower [OF b(1) this] have "(of_int (2 ^ 52) :: rat) \<le> of_int ?n"
        by (simp only: of_int_le_iff)
      then have le: "(2 ^ 52 :: rat) \<le> of_int ?n" by simp
      have "2 ^ 52 * ?q \<le> of_int ?n * ?q"
        by (rule mult_right_mono [OF le]) (rule less_imp_le [OF quantum_pos])
      then show ?thesis by (simp only: d(1))
    qed
  qed
  then have "?q / 2 \<le> v / 2 ^ 53" by simp
  with round_error [OF assms(1)] show ?thesis by (rule order_trans)
qed

lemma round_rel:
  assumes "1 / 2 ^ 1022 \<le> x" "x \<le> 2 ^ 1024 - 2 ^ 971"
  shows "\<exists>v. round_magnitude x = Fin v \<and> \<bar>v - x\<bar> \<le> x / 2 ^ 53 \<and> 1 / 2 ^ 1022 \<le> v"
proof -
  from round_finite [OF assms(2)] obtain v where v: "round_magnitude x = Fin v" by blast
  note d = round_magnitude_FinD [OF v]
  let ?q = "quantum x"
  let ?n = "round_half_even (x / ?q)"
  have one: "1 \<le> x * 2 ^ 1022"
  proof -
    have "1 / 2 ^ 1022 * 2 ^ 1022 \<le> x * 2 ^ 1022"
      using assms(1) by (rule mult_right_mono) simp
    then show ?thesis by simp
  qed
  from quantum_exp [OF d(2)] obtain b where b: "?q = 2 ^ b / 2 ^ 1074"
    "b = 0 \<or> 2 ^ b \<le> x * 2 ^ 1022" by blast
  from b(2) one have lo: "2 ^ b \<le> x * 2 ^ 1022" by auto
  have q: "?q \<le> x / 2 ^ 52"
  proof -
    have "2 ^ b / 2 ^ 1074 \<le> x * 2 ^ 1022 / 2 ^ 1074"
      using lo by (rule divide_right_mono) simp
    also have "\<dots> = x / 2 ^ 52" by simp
    finally show ?thesis by (simp only: b(1))
  qed
  then have "?q / 2 \<le> x / 2 ^ 53" by simp
  with round_error [OF v] have e: "\<bar>v - x\<bar> \<le> x / 2 ^ 53" by (rule order_trans)
  from rhe_scaled_lower [OF b(1) lo] have "(of_int (2 ^ 52) :: rat) \<le> of_int ?n"
    by (simp only: of_int_le_iff)
  then have le: "(2 ^ 52 :: rat) \<le> of_int ?n" by simp
  have "2 ^ 52 * ?q \<le> of_int ?n * ?q"
    by (rule mult_right_mono [OF le]) (rule less_imp_le [OF quantum_pos])
  then have "2 ^ 52 * ?q \<le> v" by (simp only: d(1))
  moreover have "1 / 2 ^ 1022 \<le> 2 ^ 52 * ?q"
    using quantum_ge [of x] by simp
  ultimately have "1 / 2 ^ 1022 \<le> v" by (rule order_trans [rotated])
  with v e show ?thesis by blast
qed

subsection \<open>Rounding is monotone\<close>

lemma pre_round_mono:
  assumes "x \<le> y" "y < 2 ^ 1024"
  shows "of_int (round_half_even (x / quantum x)) * quantum x
       \<le> of_int (round_half_even (y / quantum y)) * quantum y"
proof -
  have x: "x < 2 ^ 1024" using assms by (rule le_less_trans)
  from quantum_exp [OF x] obtain bx where bx: "quantum x = 2 ^ bx / 2 ^ 1074"
    "x * 2 ^ 1022 < 2 ^ (bx + 1)" "bx = 0 \<or> 2 ^ bx \<le> x * 2 ^ 1022" by blast
  from quantum_exp [OF assms(2)] obtain b where b: "quantum y = 2 ^ b / 2 ^ 1074"
    "y * 2 ^ 1022 < 2 ^ (b + 1)" "b = 0 \<or> 2 ^ b \<le> y * 2 ^ 1022" by blast
  have xy: "x * 2 ^ 1022 \<le> y * 2 ^ 1022" using assms(1) by (rule mult_right_mono) simp
  consider "bx = b" | "bx < b" | "b < bx" by linarith
  then show ?thesis
  proof cases
    case 1
    then have q: "quantum x = quantum y" using bx(1) b(1) by simp
    have "x / quantum y \<le> y / quantum y"
      using assms(1) by (rule divide_right_mono) (rule less_imp_le [OF quantum_pos])
    from rhe_mono [OF this]
    have "(of_int (round_half_even (x / quantum y)) :: rat)
        \<le> of_int (round_half_even (y / quantum y))"
      by (simp only: of_int_le_iff)
    then show ?thesis unfolding q
      by (rule mult_right_mono) (rule less_imp_le [OF quantum_pos])
  next
    case 2
    then have "b \<noteq> 0" by simp
    with b(3) have lo: "2 ^ b \<le> y * 2 ^ 1022" by simp
    from rhe_scaled_upper [OF bx(1,2)]
    have "(of_int (round_half_even (x / quantum x)) :: rat) \<le> of_int (2 ^ 53)"
      by (simp only: of_int_le_iff)
    then have ux: "(of_int (round_half_even (x / quantum x)) :: rat) \<le> 2 ^ 53" by simp
    from rhe_scaled_lower [OF b(1) lo]
    have "(of_int (2 ^ 52) :: rat) \<le> of_int (round_half_even (y / quantum y))"
      by (simp only: of_int_le_iff)
    then have ly: "(2 ^ 52 :: rat) \<le> of_int (round_half_even (y / quantum y))" by simp
    have "of_int (round_half_even (x / quantum x)) * quantum x \<le> 2 ^ 53 * quantum x"
      by (rule mult_right_mono [OF ux]) (rule less_imp_le [OF quantum_pos])
    also have "\<dots> = 2 ^ 52 * (2 ^ (bx + 1) / 2 ^ 1074)" unfolding bx(1) by simp
    also have "\<dots> \<le> 2 ^ 52 * (2 ^ b / 2 ^ 1074)"
      using 2 by (intro mult_left_mono divide_right_mono power_increasing) simp_all
    also have "\<dots> = 2 ^ 52 * quantum y" by (simp only: b(1))
    also have "\<dots> \<le> of_int (round_half_even (y / quantum y)) * quantum y"
      by (rule mult_right_mono [OF ly]) (rule less_imp_le [OF quantum_pos])
    finally show ?thesis .
  next
    case 3
    then have "bx \<noteq> 0" by simp
    with bx(3) have "2 ^ bx \<le> x * 2 ^ 1022" by simp
    also note xy
    also note b(2)
    also have "(2::rat) ^ (b + 1) \<le> 2 ^ bx" using 3 by (intro power_increasing) simp_all
    finally show ?thesis by simp
  qed
qed

lemma round_mono:
  assumes "x \<le> y" "round_magnitude y = Fin w"
  shows "\<exists>v. round_magnitude x = Fin v \<and> v \<le> w"
proof -
  note d = round_magnitude_FinD [OF assms(2)]
  have x: "x < 2 ^ 1024" using assms(1) d(2) by (rule le_less_trans)
  from pre_round_mono [OF assms(1) d(2)]
  have le: "of_int (round_half_even (x / quantum x)) * quantum x \<le> w" by (simp only: d(1))
  from le d(3) have "of_int (round_half_even (x / quantum x)) * quantum x < 2 ^ 1024"
    by (rule le_less_trans)
  with x have "round_magnitude x = Fin (of_int (round_half_even (x / quantum x)) * quantum x)"
    by (simp add: round_magnitude_def Let_def del: power_numeral)
  with le show ?thesis by blast
qed

subsection \<open>A double rounds to itself\<close>

lemma round_idem:
  assumes "round_magnitude y = Fin v" "0 \<le> y"
  shows "round_magnitude v = Fin v"
proof -
  note d = round_magnitude_FinD [OF assms(1)]
  define n where "n = round_half_even (y / quantum y)"
  from quantum_exp [OF d(2)] obtain b where b: "quantum y = 2 ^ b / 2 ^ 1074"
    "y * 2 ^ 1022 < 2 ^ (b + 1)" "b = 0 \<or> 2 ^ b \<le> y * 2 ^ 1022" by blast
  have v: "v = of_int n * 2 ^ b / 2 ^ 1074" using d(1) by (simp add: n_def b(1))
  have s: "v * 2 ^ 1022 = of_int n * 2 ^ b / 2 ^ 52" unfolding v by simp
  have t: "v * 2 ^ 1074 = of_int n * 2 ^ b" unfolding v by simp
  have n0: "0 \<le> n" unfolding n_def
    using assms(2) quantum_pos [of y] by (intro rhe_nonneg) simp
  have n53: "n \<le> 2 ^ 53" unfolding n_def by (rule rhe_scaled_upper [OF b(1,2)])
  consider "n = 2 ^ 53" | "2 ^ 52 \<le> n" "n < 2 ^ 53" | "n < 2 ^ 52" using n53 by linarith
  then show ?thesis
  proof cases
    case 1
    have s1: "v * 2 ^ 1022 = 2 ^ (b + 1)" unfolding s 1 by simp
    have t1: "v * 2 ^ 1074 / 2 ^ (b + 1) = of_int (2 ^ 52)" unfolding t 1 by simp
    show ?thesis
    proof (rule round_magnitude_eval [where b = "b + 1" and n = "2 ^ 52"])
      show "2 ^ (b + 1) \<le> v * 2 ^ 1022" unfolding s1 by simp
      show "v * 2 ^ 1022 < 2 ^ (b + 1 + 1)" unfolding s1 by simp
      show "round_half_even (v * 2 ^ 1074 / 2 ^ (b + 1)) = 2 ^ 52" unfolding t1 by (rule rhe_of_int)
      show "v = of_int (2 ^ 52) * 2 ^ (b + 1) / 2 ^ 1074" unfolding v 1 by simp
    qed (rule d(3))+
  next
    case 2
    have N: "(2 ^ 52 :: rat) \<le> of_int n" "(of_int n :: rat) < 2 ^ 53"
      using 2 by (simp_all flip: of_int_le_iff of_int_less_iff)
    show ?thesis
    proof (rule round_magnitude_eval [where b = b and n = n])
      have "(2::rat) ^ b = 2 ^ 52 * 2 ^ b / 2 ^ 52" by simp
      also have "\<dots> \<le> of_int n * 2 ^ b / 2 ^ 52"
        using N(1) by (intro divide_right_mono mult_right_mono) simp_all
      finally show "2 ^ b \<le> v * 2 ^ 1022" unfolding s .
      have "of_int n * 2 ^ b / 2 ^ 52 < 2 ^ 53 * 2 ^ b / (2 ^ 52 :: rat)"
        using N(2) by (intro divide_strict_right_mono mult_strict_right_mono) simp_all
      also have "\<dots> = 2 ^ (b + 1)" by simp
      finally show "v * 2 ^ 1022 < 2 ^ (b + 1)" unfolding s .
      show "round_half_even (v * 2 ^ 1074 / 2 ^ b) = n" unfolding t by simp
      show "v = of_int n * 2 ^ b / 2 ^ 1074" by (rule v)
    qed (rule d(3))+
  next
    case 3
    have "b = 0"
    proof (rule ccontr)
      assume "b \<noteq> 0"
      with b(3) have "2 ^ b \<le> y * 2 ^ 1022" by simp
      from rhe_scaled_lower [OF b(1) this] 3 show False by (simp add: n_def)
    qed
    have N: "(of_int n :: rat) < 2 ^ 52" using 3 by (simp flip: of_int_less_iff)
    show ?thesis
    proof (rule round_magnitude_eval_sub [where n = n])
      have "v * 2 ^ 1022 = of_int n / 2 ^ 52" unfolding s \<open>b = 0\<close> by simp
      also have "\<dots> < 1" using N by simp
      finally show "v * 2 ^ 1022 < 1" .
      show "round_half_even (v * 2 ^ 1074) = n" unfolding t \<open>b = 0\<close> by simp
      show "v = of_int n / 2 ^ 1074" unfolding v \<open>b = 0\<close> by simp
    qed (rule d(3))
  qed
qed

text \<open>Rounding never goes past a double.\<close>

lemma round_le_double:
  assumes "x \<le> w" "round_magnitude w = Fin w"
  shows "\<exists>v. round_magnitude x = Fin v \<and> v \<le> w"
  using assms by (rule round_mono)

lemma round_ge_double:
  assumes "w \<le> x" "round_magnitude w = Fin w" "round_magnitude x = Fin v"
  shows "w \<le> v"
  using round_mono [OF assms(1,3)] assms(2) by simp

section \<open>The calculator: signs and sizes of the results\<close>

subsection \<open>What the parser returns\<close>

lemma foldl_digits_nonneg:
  "0 \<le> acc \<Longrightarrow> 0 \<le> foldl (\<lambda>acc c. acc * int base + int (the (digit_val base c))) acc ds"
  by (induction ds arbitrary: acc) simp_all

lemma digits_val_nonneg: "0 \<le> digits_val base ds"
  unfolding digits_val_def by (rule foldl_digits_nonneg) simp

lemma unsigned_decimal_nonneg: "unsigned_decimal u = Some (Some y) \<Longrightarrow> 0 \<le> y"
  by (auto simp: unsigned_decimal_def Let_def digits_val_nonneg split: if_splits option.splits)

lemma non_decimal_nonneg: "non_decimal s = Some y \<Longrightarrow> 0 \<le> y"
  by (cases s rule: non_decimal.cases)
     (auto simp: digits_val_nonneg split: if_splits option.splits)

lemma Number_shape:
  "Number value = NaN \<or> (\<exists>s. Number value = Num s Infty)
   \<or> (\<exists>s y. 0 \<le> y \<and> Number value = Num s (round_magnitude y))"
proof (cases "trim value = []")
  case True
  then have "Number value = Num False (round_magnitude 0)" by (simp add: Number_def)
  then show ?thesis by blast
next
  case False
  show ?thesis
  proof (cases "non_decimal (trim value)")
    case (Some y)
    with False have "Number value = Num False (round_magnitude y)" by (simp add: Number_def)
    with non_decimal_nonneg [OF Some] show ?thesis by blast
  next
    case None
    with False have n: "Number value = signed_decimal (trim value)" by (simp add: Number_def)
    show ?thesis unfolding n signed_decimal_def Let_def
      by (auto split: option.splits dest: unsigned_decimal_nonneg)
  qed
qed

lemma positive_finiteD:
  assumes "positive_finite n"
  obtains x where "n = Num False (Fin x)" "0 < x"
proof (cases n)
  case NaN
  with assms show thesis by (simp add: positive_finite_def)
next
  case (Num s a)
  with assms show thesis
    by (cases a; cases s) (auto simp: positive_finite_def js_gt_def intro: that)
qed

lemma positive_finiteI: "0 < x \<Longrightarrow> positive_finite (Num False (Fin x))"
  by (simp add: positive_finite_def js_gt_def)

lemma parsePositiveNumber_positive:
  "parsePositiveNumber value = Some n \<Longrightarrow> positive_finite n"
  by (simp add: parsePositiveNumber_alt positive_finite_def split: if_splits)

text \<open>A parsed input is a positive double: it rounds to itself and lies in the range of doubles.\<close>

lemma parsed_double:
  assumes "parsePositiveNumber value = Some n"
  obtains x where "n = Num False (Fin x)" "0 < x" "round_magnitude x = Fin x"
    "1 / 2 ^ 1074 \<le> x" "x < 2 ^ 1024"
proof -
  from parsePositiveNumber_positive [OF assms] obtain x where x: "n = Num False (Fin x)" "0 < x"
    by (rule positive_finiteD)
  from assms have n: "Number value = n" by (simp add: parsePositiveNumber_alt split: if_splits)
  from Number_shape [of "value"] n x obtain y where y: "0 \<le> y" "round_magnitude y = Fin x"
    by auto
  from round_idem [OF y(2,1)] have r: "round_magnitude x = Fin x" .
  have "1 / 2 ^ 1075 < x"
  proof (rule ccontr)
    assume "\<not> 1 / 2 ^ 1075 < x"
    then have "x \<le> 1 / 2 ^ 1075" by simp
    from round_zero [OF less_imp_le [OF x(2)] this] r x(2) show False by simp
  qed
  from round_positive [OF this r] round_magnitude_FinD(2) [OF r] x r show thesis
    by (intro that) simp_all
qed

subsection \<open>The shape of a present derivation\<close>

lemma CHARGING_EFFICIENCY_value:
  "CHARGING_EFFICIENCY = Num False (Fin (8106479329266893 / 9007199254740992))"
  by (simp add: CHARGING_EFFICIENCY_def lit_def round_9_10)

lemma effective_positive:
  assumes "1 / 2 ^ 1074 \<le> x" "x < 2 ^ 1024"
  shows "\<exists>e. round_magnitude (x * (8106479329266893 / 9007199254740992)) = Fin e
           \<and> 1 / 2 ^ 1074 \<le> e"
proof -
  let ?k = "8106479329266893 / 9007199254740992 :: rat"
  have "x * ?k \<le> 2 ^ 1024 * ?k"
    using assms(2) by (intro mult_right_mono less_imp_le) simp_all
  also have "\<dots> \<le> 2 ^ 1024 - 2 ^ 971" by simp
  finally obtain e where e: "round_magnitude (x * ?k) = Fin e"
    using round_finite by blast
  have "1 / 2 ^ 1075 < 1 / 2 ^ 1074 * ?k" by simp
  also have "\<dots> \<le> x * ?k" using assms(1) by (intro mult_right_mono) simp_all
  finally have "1 / 2 ^ 1074 \<le> e" using e by (rule round_positive)
  with e show ?thesis by blast
qed

lemma results_shape:
  assumes "results st = Some r"
  obtains c x f e where
    "electricityCostNum st = Some (Num False (Fin c))" "0 < c" "round_magnitude c = Fin c"
    "efficiencyNum st = Some (Num False (Fin x))" "0 < x" "round_magnitude x = Fin x"
    "fuelPriceNum st = Some (Num False (Fin f))" "0 < f" "round_magnitude f = Fin f"
    "effectiveEfficiency r = Num False (Fin e)" "1 / 2 ^ 1074 \<le> e"
    "round_magnitude (x * (8106479329266893 / 9007199254740992)) = Fin e"
    "electricCostPerDist r = Num False (round_magnitude (c / e))"
    "evFuelEquivalent r = js_div (Num False (Fin f)) (electricCostPerDist r)"
proof -
  from assms obtain Ce E_raw Cf where m: "electricityCostNum st = Some Ce"
    "efficiencyNum st = Some E_raw" "fuelPriceNum st = Some Cf"
    by (auto simp: results_def split: option.splits)
  from m(1) obtain c where c: "Ce = Num False (Fin c)" "0 < c" "round_magnitude c = Fin c"
    unfolding electricityCostNum_def by (rule parsed_double)
  from m(2) obtain x where x: "E_raw = Num False (Fin x)" "0 < x" "round_magnitude x = Fin x"
    "1 / 2 ^ 1074 \<le> x" "x < 2 ^ 1024"
    unfolding efficiencyNum_def by (rule parsed_double)
  from m(3) obtain f where f: "Cf = Num False (Fin f)" "0 < f" "round_magnitude f = Fin f"
    unfolding fuelPriceNum_def by (rule parsed_double)
  from effective_positive [OF x(4,5)] obtain e where
    e: "round_magnitude (x * (8106479329266893 / 9007199254740992)) = Fin e" "1 / 2 ^ 1074 \<le> e"
    by blast
  have e0: "e \<noteq> 0" using e(2) by auto
  have e': "round_magnitude (x * 8106479329266893 / 9007199254740992) = Fin e"
    using e(1) by simp
  from assms have r: "r = \<lparr>electricCostPerDist = Num False (round_magnitude (c / e)),
      evFuelEquivalent = js_div (Num False (Fin f)) (Num False (round_magnitude (c / e))),
      rawEfficiency = Num False (Fin x), effectiveEfficiency = Num False (Fin e)\<rparr>"
    by (simp add: results_def m c x f CHARGING_EFFICIENCY_value e' e0 Let_def)
  show thesis
    by (rule that [OF _ c(2,3) _ x(2,3) _ f(2,3) _ e(2,1)]) (simp_all add: m c x f r)
qed

lemma non_negative_plus: "non_negative (Num False (round_magnitude x))" if "0 \<le> x"
proof (cases "round_magnitude x")
  case (Fin v)
  from round_nonneg [OF that Fin] show ?thesis by (simp add: non_negative_def Fin)
next
  case Infty
  then show ?thesis by (simp add: non_negative_def)
qed

lemma div_positive_finite:
  assumes "0 < a" "0 < b"
  shows "js_div (Num False (Fin a)) (Num False (Fin b)) = Num False (round_magnitude (a / b))"
  using assms by simp

subsection \<open>The shape of a present comparison\<close>

lemma round_1: "round_magnitude 1 = Fin 1"
  by (rule round_magnitude_eval [where b = 1022 and n = "2 ^ 52", OF _ _ _ rhe_eq]) simp_all

lemma lit_100: "lit 100 = Num False (Fin 100)"
  by (simp add: lit_def round_100)

text \<open>A magnitude that a rounding produced: infinite, or a non-negative double.\<close>

lemma rounded_cases:
  assumes "0 \<le> x"
  obtains "round_magnitude x = Infty"
  | v where "round_magnitude x = Fin v" "0 \<le> v" "round_magnitude v = Fin v"
proof (cases "round_magnitude x")
  case (Fin v)
  show ?thesis
    by (rule that(2) [OF Fin round_nonneg [OF assms Fin] round_idem [OF Fin assms]])
next
  case Infty
  then show ?thesis by (rule that(1))
qed

lemma gas_cost_shape:
  assumes "0 < f" "0 < i"
  shows "\<exists>G. (case u of US \<Rightarrow> js_div (Num False (Fin f)) (Num False (Fin i))
            | METRIC \<Rightarrow> js_div (js_mul (Num False (Fin f)) (Num False (Fin i))) (lit 100))
           = Num False G
         \<and> (G = Infty \<or> (\<exists>g. G = Fin g \<and> 0 \<le> g \<and> round_magnitude g = Fin g))"
proof (cases u)
  case US
  have "0 \<le> f / i" using assms by simp
  then show ?thesis using assms(2) unfolding US by (cases rule: rounded_cases) auto
next
  case METRIC
  have "0 \<le> f * i" using assms by simp
  then show ?thesis
  proof (cases rule: rounded_cases)
    case 1
    then show ?thesis unfolding METRIC by (simp add: lit_100)
  next
    case (2 m)
    have "0 \<le> m / 100" using 2(2) by simp
    then show ?thesis using 2(1) unfolding METRIC
      by (cases rule: rounded_cases) (auto simp: lit_100)
  qed
qed

lemma comparison_shape:
  assumes "comparison st = Some c"
  obtains r f i G where
    "results st = Some r"
    "fuelPriceNum st = Some (Num False (Fin f))" "0 < f"
    "iceEfficiencyNum st = Some (Num False (Fin i))" "0 < i"
    "(case unitSystem st of US \<Rightarrow> js_div (Num False (Fin f)) (Num False (Fin i))
        | METRIC \<Rightarrow> js_div (js_mul (Num False (Fin f)) (Num False (Fin i))) (lit 100))
       = Num False G"
    "G = Infty \<or> (\<exists>g. G = Fin g \<and> 0 \<le> g \<and> round_magnitude g = Fin g)"
    "gasCostPerDist c = Num False G"
    "savingsPerDist c = js_sub (Num False G) (electricCostPerDist r)"
    "percentSavings c =
       (if js_gt (Num False G) (lit 0)
        then js_mul (js_div (savingsPerDist c) (Num False G)) (lit 100) else lit 0)"
    "efficiencyFactor c = js_div (Num False G) (electricCostPerDist r)"
proof -
  from assms obtain r ice Cf where m: "results st = Some r" "iceEfficiencyNum st = Some ice"
    "fuelPriceNum st = Some Cf"
    by (auto simp: comparison_def split: option.splits)
  from m(3) obtain f where f: "Cf = Num False (Fin f)" "0 < f"
    unfolding fuelPriceNum_def by (rule parsed_double)
  from m(2) have "parsePositiveNumber (iceEfficiency st) = Some ice"
    by (simp add: iceEfficiencyNum_def split: if_splits)
  then obtain i where i: "ice = Num False (Fin i)" "0 < i" by (rule parsed_double)
  from gas_cost_shape [OF f(2) i(2), of "unitSystem st"] obtain G where
    G: "(case unitSystem st of US \<Rightarrow> js_div (Num False (Fin f)) (Num False (Fin i))
        | METRIC \<Rightarrow> js_div (js_mul (Num False (Fin f)) (Num False (Fin i))) (lit 100))
       = Num False G"
    "G = Infty \<or> (\<exists>g. G = Fin g \<and> 0 \<le> g \<and> round_magnitude g = Fin g)"
    by blast
  have g: "(if unitSystem st = US then js_div (Num False (Fin f)) (Num False (Fin i))
        else js_div (js_mul (Num False (Fin f)) (Num False (Fin i))) (lit 100)) = Num False G"
    using G(1) by (cases "unitSystem st") simp_all
  from assms have c: "c = \<lparr>gasCostPerDist = Num False G,
      efficiencyDisplay = Num False (Fin i),
      savingsPerDist = js_sub (Num False G) (electricCostPerDist r),
      percentSavings =
        (if js_gt (Num False G) (lit 0)
         then js_mul (js_div (js_sub (Num False G) (electricCostPerDist r)) (Num False G)) (lit 100)
         else lit 0),
      efficiencyFactor = js_div (Num False G) (electricCostPerDist r)\<rparr>"
    unfolding comparison_def m f i option.case Let_def g by simp
  show thesis
    by (rule that [OF m(1) _ f(2) _ i(2) G]) (simp_all add: m f i c)
qed

subsection \<open>The percentage is never above 100\<close>

lemma not_gt_negative: "\<not> js_gt (Num True m) (Num False (Fin 100))"
  by (simp add: js_gt_def)

lemma mul_100_negative: "\<exists>m. js_mul (Num True a) (Num False (Fin 100)) = Num True m"
  by (cases a) simp_all

lemma div_negative:
  assumes "0 < g"
  shows "\<exists>m. js_div (Num True a) (Num False (Fin g)) = Num True m"
  using assms by (cases a) simp_all

lemma percent_of_positive:
  assumes g: "0 < g" "round_magnitude g = Fin g" and r: "0 < r" "r \<le> g"
  shows "\<exists>t. js_mul (js_div (Num False (round_magnitude r)) (Num False (Fin g))) (Num False (Fin 100))
            = Num False (Fin t) \<and> t \<le> 100"
proof -
  from round_le_double [OF r(2) g(2)] obtain s where s: "round_magnitude r = Fin s" "s \<le> g"
    by blast
  from round_nonneg [OF less_imp_le [OF r(1)] s(1)] have s0: "0 \<le> s" .
  have "s / g \<le> 1" using s(2) g(1) by simp
  from round_le_double [OF this round_1] obtain q where q: "round_magnitude (s / g) = Fin q" "q \<le> 1"
    by blast
  have "q * 100 \<le> 100" using q(2) by simp
  from round_le_double [OF this round_100] obtain t where
    t: "round_magnitude (q * 100) = Fin t" "t \<le> 100" by blast
  from g(1) have "g \<noteq> 0" by simp
  then show ?thesis by (simp add: s q t)
qed

lemma percent_bound:
  assumes G: "G = Infty \<or> (\<exists>g. G = Fin g \<and> 0 \<le> g \<and> round_magnitude g = Fin g)"
    and P: "P = Infty \<or> (\<exists>p. P = Fin p \<and> 0 \<le> p)"
  shows "\<not> js_gt (if js_gt (Num False G) (lit 0)
                   then js_mul (js_div (js_sub (Num False G) (Num False P)) (Num False G)) (lit 100)
                   else lit 0) (lit 100)"
proof -
  from G show ?thesis
  proof (elim disjE exE conjE)
    assume G: "G = Infty"
    from P show ?thesis unfolding G
      by (auto simp: js_sub_def js_gt_def lit_100)
  next
    fix g assume G: "G = Fin g" and g: "0 \<le> g" "round_magnitude g = Fin g"
    show ?thesis
    proof (cases "g = 0")
      case True
      then show ?thesis unfolding G by (simp add: js_gt_def lit_100)
    next
      case False
      with g(1) have g0: "0 < g" by simp
      then have gt: "js_gt (Num False (Fin g)) (lit 0)" by (simp add: js_gt_def)
      from P show ?thesis
      proof (elim disjE exE conjE)
        assume "P = Infty"
        with g0 show ?thesis unfolding G by (simp add: js_sub_def js_gt_def lit_100)
      next
        fix p assume P: "P = Fin p" and p: "0 \<le> p"
        consider "g - p = 0" | "g - p < 0" | "0 < g - p" by linarith
        then show ?thesis
        proof cases
          case 1
          then have "js_sub (Num False (Fin g)) (Num False (Fin p)) = Num False (Fin 0)"
            by (simp add: js_sub_def signed_def)
          with g0 show ?thesis unfolding G P by (simp add: js_gt_def lit_100)
        next
          case 2
          then have "js_sub (Num False (Fin g)) (Num False (Fin p))
              = Num True (round_magnitude \<bar>g - p\<bar>)"
            by (simp add: js_sub_def signed_def Let_def)
          moreover from div_negative [OF g0] obtain m where
            "js_div (Num True (round_magnitude \<bar>g - p\<bar>)) (Num False (Fin g)) = Num True m"
            by blast
          moreover from mul_100_negative obtain m' where
            "js_mul (Num True m) (Num False (Fin 100)) = Num True m'" by blast
          ultimately show ?thesis unfolding G P using gt
            by (simp add: lit_100 not_gt_negative)
        next
          case 3
          then have s: "js_sub (Num False (Fin g)) (Num False (Fin p))
              = Num False (round_magnitude (g - p))"
            by (simp add: js_sub_def signed_def Let_def)
          have "g - p \<le> g" using p by simp
          from percent_of_positive [OF g0 g(2) 3 this] obtain t where
            "js_mul (js_div (Num False (round_magnitude (g - p))) (Num False (Fin g)))
               (Num False (Fin 100)) = Num False (Fin t)" "t \<le> 100"
            by blast
          then show ?thesis unfolding G P using gt
            by (simp add: s lit_100 js_gt_def)
        qed
      qed
    qed
  qed
qed

subsection \<open>Signs\<close>

lemma non_negative_Num: "non_negative (Num False m) \<longleftrightarrow> (\<forall>x. m = Fin x \<longrightarrow> 0 \<le> x)"
  by (cases m) (auto simp: non_negative_def)

lemma electric_cost_shape:
  assumes "0 < c" "0 < e"
  obtains "round_magnitude (c / e) = Infty"
  | p where "round_magnitude (c / e) = Fin p" "0 \<le> p" "round_magnitude p = Fin p"
proof -
  have "0 \<le> c / e" using assms by simp
  then show thesis by (cases rule: rounded_cases) (auto intro: that)
qed

lemma div_by_magnitude:
  assumes "0 < f" "P = Infty \<or> (\<exists>p. P = Fin p \<and> 0 \<le> p)"
  shows "\<exists>m. js_div (Num False (Fin f)) (Num False P) = Num False m
           \<and> (\<forall>x. m = Fin x \<longrightarrow> 0 \<le> x)"
  using assms(2)
proof (elim disjE exE conjE)
  assume "P = Infty"
  then show ?thesis by simp
next
  fix p assume P: "P = Fin p" and p: "0 \<le> p"
  show ?thesis
  proof (cases "p = 0")
    case True
    with assms(1) show ?thesis unfolding P by simp
  next
    case False
    have "0 \<le> f / p" using assms(1) p by simp
    then have "\<forall>x. round_magnitude (f / p) = Fin x \<longrightarrow> 0 \<le> x"
      by (auto dest: round_nonneg)
    with False show ?thesis unfolding P by simp
  qed
qed

lemma factor_shape:
  assumes "G = Infty \<or> (\<exists>g. G = Fin g \<and> 0 \<le> g \<and> round_magnitude g = Fin g)"
    and "P = Infty \<or> (\<exists>p. P = Fin p \<and> 0 \<le> p)"
  shows "js_div (Num False G) (Num False P) = NaN \<or>
         (\<exists>m. js_div (Num False G) (Num False P) = Num False m \<and> (\<forall>x. m = Fin x \<longrightarrow> 0 \<le> x))"
  using assms
proof (elim disjE exE conjE)
  fix g p assume "G = Fin g" "P = Fin p" "0 \<le> g" "0 \<le> p"
  then have "0 \<le> g / p" by simp
  then have "\<forall>x. round_magnitude (g / p) = Fin x \<longrightarrow> 0 \<le> x"
    by (auto dest: round_nonneg)
  with \<open>G = Fin g\<close> \<open>P = Fin p\<close> show ?thesis by simp
qed simp_all

subsection \<open>Inputs of ordinary size: nothing underflows, nothing overflows\<close>

lemma double_pow2:
  assumes k: "k \<le> 1023"
  shows "round_magnitude (2 ^ k) = Fin (2 ^ k)"
proof -
  have lt: "(2::rat) ^ k < 2 ^ 1024" using k by (intro power_strict_increasing) simp_all
  show ?thesis
  proof (rule round_magnitude_eval [where b = "1022 + k" and n = "2 ^ 52", OF _ _ lt _ _ lt])
  show "(2::rat) ^ (1022 + k) \<le> 2 ^ k * 2 ^ 1022" by (simp add: power_add del: power_numeral)
  show "(2::rat) ^ k * 2 ^ 1022 < 2 ^ (1022 + k + 1)" by (simp add: power_add del: power_numeral)
  have "(2::rat) ^ k * 2 ^ 1074 / 2 ^ (1022 + k) = of_int (2 ^ 52)"
    by (simp add: power_add)
  then show "round_half_even (2 ^ k * 2 ^ 1074 / 2 ^ (1022 + k)) = 2 ^ 52"
    by (simp only: rhe_of_int)
  show "(2::rat) ^ k = of_int (2 ^ 52) * 2 ^ (1022 + k) / 2 ^ 1074" by (simp add: power_add)
  qed
qed

lemma double_inv_pow2:
  assumes k: "k \<le> 1022"
  shows "round_magnitude (1 / 2 ^ k) = Fin (1 / 2 ^ k)"
proof -
  have "1 / (2::rat) ^ k \<le> 1" by simp
  also have "\<dots> < (2::rat) ^ 1024" by simp
  finally have lt: "1 / (2::rat) ^ k < 2 ^ 1024" .
  show ?thesis
  proof (rule round_magnitude_eval [where b = "1022 - k" and n = "2 ^ 52", OF _ _ lt _ _ lt])
  have e: "(2::rat) ^ 1022 = 2 ^ (1022 - k) * 2 ^ k"
    using k by (simp add: power_add [symmetric] del: power_numeral)
  have s: "1 / 2 ^ k * (2::rat) ^ 1022 = 2 ^ (1022 - k)" unfolding e by simp
  show "(2::rat) ^ (1022 - k) \<le> 1 / 2 ^ k * 2 ^ 1022" unfolding s by simp
  show "1 / 2 ^ k * (2::rat) ^ 1022 < 2 ^ (1022 - k + 1)" unfolding s by simp
  have "1 / 2 ^ k * (2::rat) ^ 1074 = 2 ^ 52 * (1 / 2 ^ k * 2 ^ 1022)" by simp
  then have t: "1 / 2 ^ k * (2::rat) ^ 1074 = 2 ^ 52 * 2 ^ (1022 - k)" unfolding s .
  have "1 / 2 ^ k * (2::rat) ^ 1074 / 2 ^ (1022 - k) = of_int (2 ^ 52)" unfolding t by simp
  then show "round_half_even (1 / 2 ^ k * 2 ^ 1074 / 2 ^ (1022 - k)) = 2 ^ 52"
    by (simp only: rhe_of_int)
  have "of_int (2 ^ 52) * 2 ^ (1022 - k) / (2::rat) ^ 1074 = (1 / 2 ^ k * 2 ^ 1074) / 2 ^ 1074"
    unfolding t by simp
  then show "1 / (2::rat) ^ k = of_int (2 ^ 52) * 2 ^ (1022 - k) / 2 ^ 1074" by simp
  qed
qed

lemma round_between:
  assumes "lo \<le> x" "x \<le> hi" "round_magnitude lo = Fin lo" "round_magnitude hi = Fin hi"
  shows "\<exists>v. round_magnitude x = Fin v \<and> lo \<le> v \<and> v \<le> hi"
proof -
  from round_mono [OF assms(2,4)] obtain v where v: "round_magnitude x = Fin v" "v \<le> hi"
    by blast
  from round_ge_double [OF assms(1,3) v(1)] v show ?thesis by blast
qed

lemma quotient_between:
  fixes a b :: rat
  assumes "la \<le> a" "a \<le> ha" "lb \<le> b" "b \<le> hb" "0 < la" "0 < lb"
  shows "la / hb \<le> a / b" "a / b \<le> ha / lb"
proof -
  have b: "0 < b" "0 < hb" using assms by linarith+
  have a: "0 \<le> a" using assms by linarith
  show "la / hb \<le> a / b" using assms b by (intro frac_le) simp_all
  show "a / b \<le> ha / lb" using assms a by (intro frac_le) simp_all
qed

lemma lit_bounds:
  "lit (1 / 2 ^ 250) = Num False (Fin (1 / 2 ^ 250))" "lit (2 ^ 250) = Num False (Fin (2 ^ 250))"
  using double_inv_pow2 [of 250] double_pow2 [of 250] by (simp_all add: lit_def)

lemma ordinaryD:
  assumes "ordinary n"
  obtains x where "n = Num False (Fin x)" "1 / 2 ^ 250 \<le> x" "x \<le> 2 ^ 250"
proof -
  from assms have a: "js_le (Num False (Fin (1 / 2 ^ 250))) n" "js_le n (Num False (Fin (2 ^ 250)))"
    unfolding ordinary_def lit_bounds by blast+
  show thesis
  proof (cases n)
    case NaN
    with a show thesis by simp
  next
    case (Num s m)
    show thesis
    proof (cases m)
      case Infty
      with a Num show thesis by (cases s) (simp_all del: power_numeral)
    next
      case (Fin x)
      have z: "(1 / 2 ^ 250 :: rat) \<noteq> 0" by simp
      from a(1) Num Fin z have s: "\<not> s" by (cases s) (simp_all del: power_numeral)
      with a Num Fin have "1 / 2 ^ 250 \<le> x" "x \<le> 2 ^ 250"
        by (simp_all del: power_numeral)
      with s Num Fin show thesis by (intro that [of x]) simp_all
    qed
  qed
qed

lemma ordinary_effective:
  assumes "1 / 2 ^ 250 \<le> x" "x \<le> 2 ^ 250"
    and "round_magnitude (x * (8106479329266893 / 9007199254740992)) = Fin e"
  shows "1 / 2 ^ 251 \<le> e" "e \<le> 2 ^ 250"
proof -
  let ?k = "8106479329266893 / 9007199254740992 :: rat"
  have "1 / 2 ^ 251 = 1 / 2 ^ 250 * (1 / 2 :: rat)" by simp
  also have "\<dots> \<le> x * ?k" using assms(1) by (intro mult_mono) simp_all
  finally have lo: "1 / 2 ^ 251 \<le> x * ?k" .
  have "x * ?k \<le> 2 ^ 250 * 1" using assms(1,2) by (intro mult_mono) simp_all
  then have hi: "x * ?k \<le> 2 ^ 250" by simp
  from round_between [OF lo hi double_inv_pow2 double_pow2] assms(3)
  show "1 / 2 ^ 251 \<le> e" "e \<le> 2 ^ 250" by simp_all
qed

lemma ordinary_quotient:
  assumes "1 / 2 ^ la \<le> a" "a \<le> 2 ^ ha" "1 / 2 ^ lb \<le> b" "b \<le> 2 ^ hb"
    and "la + hb \<le> 1022" "ha + lb \<le> 1023"
  shows "\<exists>v. round_magnitude (a / b) = Fin v \<and> 1 / 2 ^ (la + hb) \<le> v \<and> v \<le> 2 ^ (ha + lb)"
proof -
  have "(0::rat) < 1 / 2 ^ la" "(0::rat) < 1 / 2 ^ lb" by simp_all
  from quotient_between [OF assms(1-4) this]
  have "1 / 2 ^ la / 2 ^ hb \<le> a / b" "a / b \<le> 2 ^ ha / (1 / 2 ^ lb)" .
  then have "1 / 2 ^ (la + hb) \<le> a / b" "a / b \<le> 2 ^ (ha + lb)"
    by (simp_all add: power_add)
  from round_between [OF this double_inv_pow2 [OF assms(5)] double_pow2 [OF assms(6)]]
  show ?thesis .
qed

text \<open>The derivation on inputs between \<open>2 ^ - 250\<close> and \<open>2 ^ 250\<close>.\<close>

lemma ordinary_results:
  assumes "results st = Some r"
    and "electricityCostNum st = Some Ce" "ordinary Ce"
    and "efficiencyNum st = Some E_raw" "ordinary E_raw"
    and "fuelPriceNum st = Some Cf" "ordinary Cf"
  obtains p v where "electricCostPerDist r = Num False (Fin p)" "1 / 2 ^ 500 \<le> p" "p \<le> 2 ^ 501"
    "evFuelEquivalent r = Num False (Fin v)" "1 / 2 ^ 751 \<le> v" "v \<le> 2 ^ 750"
proof -
  from assms(1) obtain c x f e where s:
    "electricityCostNum st = Some (Num False (Fin c))"
    "efficiencyNum st = Some (Num False (Fin x))"
    "fuelPriceNum st = Some (Num False (Fin f))"
    "round_magnitude (x * (8106479329266893 / 9007199254740992)) = Fin e"
    "electricCostPerDist r = Num False (round_magnitude (c / e))"
    "evFuelEquivalent r = js_div (Num False (Fin f)) (electricCostPerDist r)"
    by (rule results_shape)
  from assms(2,3) s(1) have c: "1 / 2 ^ 250 \<le> c" "c \<le> 2 ^ 250"
    by (auto elim!: ordinaryD)
  from assms(4,5) s(2) have x: "1 / 2 ^ 250 \<le> x" "x \<le> 2 ^ 250"
    by (auto elim!: ordinaryD)
  from assms(6,7) s(3) have f: "1 / 2 ^ 250 \<le> f" "f \<le> 2 ^ 250"
    by (auto elim!: ordinaryD)
  note e = ordinary_effective [OF x s(4)]
  from ordinary_quotient [OF c e] obtain p where
    p: "round_magnitude (c / e) = Fin p" "1 / 2 ^ 500 \<le> p" "p \<le> 2 ^ 501" by auto
  from ordinary_quotient [OF f p(2,3)] obtain v where
    v: "round_magnitude (f / p) = Fin v" "1 / 2 ^ 751 \<le> v" "v \<le> 2 ^ 750" by auto
  have "0 < p" using p(2) by (rule less_le_trans [rotated]) simp
  then have "evFuelEquivalent r = Num False (Fin v)" by (simp add: s(5,6) p(1) v(1))
  with p v s(5) show thesis by (intro that [of p v]) simp_all
qed

lemma ordinary_gas_cost:
  assumes f: "1 / 2 ^ 250 \<le> f" "f \<le> 2 ^ 250" and i: "1 / 2 ^ 250 \<le> i" "i \<le> 2 ^ 250"
  shows "\<exists>g. (case u of US \<Rightarrow> js_div (Num False (Fin f)) (Num False (Fin i))
            | METRIC \<Rightarrow> js_div (js_mul (Num False (Fin f)) (Num False (Fin i))) (lit 100))
           = Num False (Fin g) \<and> 1 / 2 ^ 507 \<le> g \<and> g \<le> 2 ^ 500"
proof (cases u)
  case US
  have i0: "i \<noteq> 0" using i(1) by auto
  from ordinary_quotient [OF f i] obtain g where
    g: "round_magnitude (f / i) = Fin g" "1 / 2 ^ 500 \<le> g" "g \<le> 2 ^ 500" by auto
  have "(1 / 2 ^ 507 :: rat) \<le> 1 / 2 ^ 500" by simp
  with g(2) have "1 / 2 ^ 507 \<le> g" by (rule order_trans [rotated])
  with g i0 show ?thesis unfolding US by simp
next
  case METRIC
  have f0: "0 \<le> f" "0 \<le> i" using f(1) i(1) by auto
  have "1 / 2 ^ 250 * (1 / 2 ^ 250) \<le> f * i" using f(1) i(1) by (intro mult_mono) simp_all
  then have lo: "1 / 2 ^ 500 \<le> f * i" by simp
  have "f * i \<le> 2 ^ 250 * 2 ^ 250" using f(2) i(2) f0 by (intro mult_mono) simp_all
  then have hi: "f * i \<le> 2 ^ 500" by simp
  from round_between [OF lo hi double_inv_pow2 double_pow2] obtain m where
    m: "round_magnitude (f * i) = Fin m" "1 / 2 ^ 500 \<le> m" "m \<le> 2 ^ 500" by auto
  have "1 / 2 ^ 507 = 1 / 2 ^ 500 / (128 :: rat)" by simp
  also have "\<dots> \<le> m / 128" using m(2) by (rule divide_right_mono) simp
  also have "\<dots> \<le> m / 100" using m(2) by (intro divide_left_mono) simp_all
  finally have lo': "1 / 2 ^ 507 \<le> m / 100" .
  have "m / 100 \<le> m / 1" using m(2) by (intro divide_left_mono) simp_all
  with m(3) have hi': "m / 100 \<le> 2 ^ 500" by simp
  from round_between [OF lo' hi' double_inv_pow2 double_pow2] obtain g where
    g: "round_magnitude (m / 100) = Fin g" "1 / 2 ^ 507 \<le> g" "g \<le> 2 ^ 500" by auto
  then show ?thesis unfolding METRIC by (simp add: m(1) lit_100)
qed

text \<open>The comparison on inputs between \<open>2 ^ - 250\<close> and \<open>2 ^ 250\<close>.\<close>

lemma ordinary_comparison:
  assumes "comparison st = Some c"
    and "electricityCostNum st = Some Ce" "ordinary Ce"
    and "efficiencyNum st = Some E_raw" "ordinary E_raw"
    and "fuelPriceNum st = Some Cf" "ordinary Cf"
    and "iceEfficiencyNum st = Some ice" "ordinary ice"
  obtains g a where "gasCostPerDist c = Num False (Fin g)" "1 / 2 ^ 507 \<le> g" "g \<le> 2 ^ 500"
    "efficiencyFactor c = Num False (Fin a)" "1 / 2 ^ 1008 \<le> a" "a \<le> 2 ^ 1000"
proof -
  from assms(1) obtain r f i G where s:
    "results st = Some r"
    "fuelPriceNum st = Some (Num False (Fin f))"
    "iceEfficiencyNum st = Some (Num False (Fin i))"
    "(case unitSystem st of US \<Rightarrow> js_div (Num False (Fin f)) (Num False (Fin i))
        | METRIC \<Rightarrow> js_div (js_mul (Num False (Fin f)) (Num False (Fin i))) (lit 100))
       = Num False G"
    "gasCostPerDist c = Num False G"
    "efficiencyFactor c = js_div (Num False G) (electricCostPerDist r)"
    by (rule comparison_shape)
  from assms(6,7) s(2) have f: "1 / 2 ^ 250 \<le> f" "f \<le> 2 ^ 250"
    by (auto elim!: ordinaryD)
  from assms(8,9) s(3) have i: "1 / 2 ^ 250 \<le> i" "i \<le> 2 ^ 250"
    by (auto elim!: ordinaryD)
  from ordinary_gas_cost [OF f i, of "unitSystem st"] s(4) obtain g where
    g: "G = Fin g" "1 / 2 ^ 507 \<le> g" "g \<le> 2 ^ 500" by auto
  from ordinary_results [OF s(1) assms(2-7)] obtain p where
    p: "electricCostPerDist r = Num False (Fin p)" "1 / 2 ^ 500 \<le> p" "p \<le> 2 ^ 501" by metis
  from ordinary_quotient [OF g(2,3) p(2,3)] obtain a where
    a: "round_magnitude (g / p) = Fin a" "1 / 2 ^ 1008 \<le> a" "a \<le> 2 ^ 1000" by auto
  have "0 < p" using p(2) by (rule less_le_trans [rotated]) simp
  then have "efficiencyFactor c = Num False (Fin a)" by (simp add: s(6) g(1) p(1) a(1))
  with g a s(5) show thesis by (intro that [of g a]) simp_all
qed

lemma positive_finite_ge:
  assumes "1 / 2 ^ k \<le> x"
  shows "positive_finite (Num False (Fin x))"
proof -
  have "(0::rat) < 1 / 2 ^ k" by simp
  then have "0 < x" using assms by (rule less_le_trans)
  then show ?thesis by (rule positive_finiteI)
qed

subsection \<open>Inputs at the edge of the doubles, evaluated\<close>

lemma round_gas_itself: "round_magnitude (4803839602528529 / 36028797018963968) = Fin (4803839602528529 / 36028797018963968)"
  by (rule round_magnitude_eval [where b = 1019 and n = 4803839602528529, OF _ _ _ rhe_eq]) simp_all

lemma round_electric_itself: "round_magnitude (5490102402889747 / 144115188075855872) = Fin (5490102402889747 / 144115188075855872)"
  by (rule round_magnitude_eval [where b = 1017 and n = 5490102402889747, OF _ _ _ rhe_eq]) simp_all

lemma round_35: "round_magnitude (35) = Fin (35)"
  by (rule round_magnitude_eval [where b = 1027 and n = 4925812092436480, OF _ _ _ rhe_eq]) simp_all

lemma round_gas_35: "round_magnitude (4 / 35) = Fin (8235153604334621 / 72057594037927936)"
  by (rule round_magnitude_eval [where b = 1018 and n = 8235153604334621, OF _ _ _ rhe_eq]) simp_all

lemma round_savings_35: "round_magnitude (10980204805779495 / 144115188075855872) = Fin (1372525600722437 / 18014398509481984)"
  by (rule round_magnitude_eval [where b = 1018 and n = 5490102402889748, OF _ _ _ rhe_tie_odd]) simp_all

lemma round_ratio_35: "round_magnitude (5490102402889748 / 8235153604334621) = Fin (3002399751580331 / 4503599627370496)"
  by (rule round_magnitude_eval [where b = 1021 and n = 6004799503160662, OF _ _ _ rhe_eq]) simp_all

lemma round_percent_35: "round_magnitude (75059993789508275 / 1125899906842624) = Fin (4691249611844267 / 70368744177664)"
  by (rule round_magnitude_eval [where b = 1028 and n = 4691249611844267, OF _ _ _ rhe_eq]) simp_all

lemma round_factor_35: "round_magnitude (16470307208669242 / 5490102402889747) = Fin (3)"
  by (rule round_magnitude_eval [where b = 1023 and n = 6755399441055744, OF _ _ _ rhe_eq]) simp_all

lemma round_equivalent_by_35: "round_magnitude (7388718138654721 / 2462906046218240) = Fin (6755399441055745 / 2251799813685248)"
  by (rule round_magnitude_eval [where b = 1023 and n = 6755399441055745, OF _ _ _ rhe_eq]) simp_all

lemma Number_5e_324: "Number (str ''5e-324'') = Num False (Fin (1 / 2 ^ 1074))"
  apply (simp add: parse_simps)
  apply (rule round_magnitude_eval_sub [where n = 1, OF _ rhe_eq])
     apply simp_all
  done

lemma Number_35: "Number (str ''35'') = Num False (Fin 35)"
  by (simp add: parse_simps round_35)

lemma round_fuel_equivalent_tiny:
  "round_magnitude (1 / 2 ^ 1074 / (5490102402889747 / 144115188075855872)) = Fin (26 / 2 ^ 1074)"
  by (rule round_magnitude_eval_sub [where n = 26, OF _ rhe_eq]) simp_all

lemma tiny_cost_memos:
  "electricityCostNum (scenario\<lparr>electricityCost := str ''5e-324''\<rparr>) = Some (Num False (Fin (1 / 2 ^ 1074)))"
  "efficiencyNum (scenario\<lparr>electricityCost := str ''5e-324''\<rparr>) = Some (Num False (Fin (7 / 2)))"
  "fuelPriceNum (scenario\<lparr>electricityCost := str ''5e-324''\<rparr>) = Some (Num False (Fin 4))"
  "iceEfficiencyNum (scenario\<lparr>electricityCost := str ''5e-324''\<rparr>) = Some (Num False (Fin 30))"
     apply (simp_all add: scenario_def memo_defs Number_scenario Number_5e_324)
  apply (simp add: trim_def str_def is_ws_def)
  done

lemma tiny_cost_results:
  "results (scenario\<lparr>electricityCost := str ''5e-324''\<rparr>) =
     Some \<lparr>electricCostPerDist = Num False (Fin 0), evFuelEquivalent = Num False Infty,
       rawEfficiency = Num False (Fin (7 / 2)),
       effectiveEfficiency = Num False (Fin (7093169413108531 / 2251799813685248))\<rparr>"
  by (simp add: results_def tiny_cost_memos CHARGING_EFFICIENCY_value round_E_effective round_zero)

lemma tiny_cost_comparison:
  "comparison (scenario\<lparr>electricityCost := str ''5e-324''\<rparr>) =
     Some \<lparr>gasCostPerDist = Num False (Fin (4803839602528529 / 36028797018963968)),
       efficiencyDisplay = Num False (Fin 30),
       savingsPerDist = Num False (Fin (4803839602528529 / 36028797018963968)),
       percentSavings = Num False (Fin 100),
       efficiencyFactor = Num False Infty\<rparr>"
proof -
  have "unitSystem (scenario\<lparr>electricityCost := str ''5e-324''\<rparr>) = US"
    by (simp add: scenario_def)
  then show ?thesis
    by (simp add: comparison_def tiny_cost_results tiny_cost_memos lit_def round_scenario
        round_gas_itself round_1 js_sub_def js_gt_def signed_def Let_def)
qed

lemma tiny_price_memos:
  "electricityCostNum (scenario\<lparr>fuelPrice := str ''5e-324''\<rparr>)
     = Some (Num False (Fin (1080863910568919 / 9007199254740992)))"
  "efficiencyNum (scenario\<lparr>fuelPrice := str ''5e-324''\<rparr>) = Some (Num False (Fin (7 / 2)))"
  "fuelPriceNum (scenario\<lparr>fuelPrice := str ''5e-324''\<rparr>) = Some (Num False (Fin (1 / 2 ^ 1074)))"
  "iceEfficiencyNum (scenario\<lparr>fuelPrice := str ''5e-324''\<rparr>) = Some (Num False (Fin 30))"
     apply (simp_all add: scenario_def memo_defs Number_scenario Number_5e_324)
  apply (simp add: trim_def str_def is_ws_def)
  done

lemma tiny_price_results:
  "results (scenario\<lparr>fuelPrice := str ''5e-324''\<rparr>) =
     Some \<lparr>electricCostPerDist = Num False (Fin (5490102402889747 / 144115188075855872)),
       evFuelEquivalent = Num False (Fin (26 / 2 ^ 1074)),
       rawEfficiency = Num False (Fin (7 / 2)),
       effectiveEfficiency = Num False (Fin (7093169413108531 / 2251799813685248))\<rparr>"
  using round_fuel_equivalent_tiny
  by (simp add: results_def tiny_price_memos CHARGING_EFFICIENCY_value round_E_effective
      round_electricCostPerDist)

lemma tiny_price_comparison:
  "comparison (scenario\<lparr>fuelPrice := str ''5e-324''\<rparr>) =
     Some \<lparr>gasCostPerDist = Num False (Fin 0),
       efficiencyDisplay = Num False (Fin 30),
       savingsPerDist = Num True (Fin (5490102402889747 / 144115188075855872)),
       percentSavings = Num False (Fin 0),
       efficiencyFactor = Num False (Fin 0)\<rparr>"
proof -
  have "unitSystem (scenario\<lparr>fuelPrice := str ''5e-324''\<rparr>) = US"
    by (simp add: scenario_def)
  then show ?thesis
    by (simp add: comparison_def tiny_price_results tiny_price_memos round_zero
        round_electric_itself js_sub_def js_gt_def signed_def Let_def)
qed

lemma mpg_35_memos:
  "electricityCostNum (scenario\<lparr>iceEfficiency := str ''35''\<rparr>)
     = Some (Num False (Fin (1080863910568919 / 9007199254740992)))"
  "efficiencyNum (scenario\<lparr>iceEfficiency := str ''35''\<rparr>) = Some (Num False (Fin (7 / 2)))"
  "fuelPriceNum (scenario\<lparr>iceEfficiency := str ''35''\<rparr>) = Some (Num False (Fin 4))"
  "iceEfficiencyNum (scenario\<lparr>iceEfficiency := str ''35''\<rparr>) = Some (Num False (Fin 35))"
     apply (simp_all add: scenario_def memo_defs Number_scenario Number_35)
  apply (simp add: trim_def str_def is_ws_def)
  done

lemma mpg_35_results:
  "results (scenario\<lparr>iceEfficiency := str ''35''\<rparr>) =
     Some \<lparr>electricCostPerDist = Num False (Fin (5490102402889747 / 144115188075855872)),
       evFuelEquivalent = Num False (Fin (7388718138654721 / 70368744177664)),
       rawEfficiency = Num False (Fin (7 / 2)),
       effectiveEfficiency = Num False (Fin (7093169413108531 / 2251799813685248))\<rparr>"
  by (simp add: results_def mpg_35_memos CHARGING_EFFICIENCY_value round_scenario)

lemma mpg_35_comparison:
  "comparison (scenario\<lparr>iceEfficiency := str ''35''\<rparr>) =
     Some \<lparr>gasCostPerDist = Num False (Fin (8235153604334621 / 72057594037927936)),
       efficiencyDisplay = Num False (Fin 35),
       savingsPerDist = Num False (Fin (1372525600722437 / 18014398509481984)),
       percentSavings = Num False (Fin (4691249611844267 / 70368744177664)),
       efficiencyFactor = Num False (Fin 3)\<rparr>"
proof -
  have "unitSystem (scenario\<lparr>iceEfficiency := str ''35''\<rparr>) = US"
    by (simp add: scenario_def)
  then show ?thesis
    by (simp add: comparison_def mpg_35_results mpg_35_memos lit_def round_100
        round_gas_35 round_savings_35 round_ratio_35 round_percent_35 round_factor_35
        js_sub_def js_gt_def signed_def Let_def)
qed

subsection \<open>Two roundings in a row\<close>

lemma one_rounding:
  fixes y F :: rat
  assumes "\<bar>y - F\<bar> \<le> y / 2 ^ 53"
  shows "F * (9007199254740992 / 9007199254740993) \<le> y"
    "y \<le> F * (9007199254740992 / 9007199254740991)"
proof -
  from abs_le_D1 [OF assms] abs_le_D2 [OF assms]
  have "y - F \<le> y / 9007199254740992" "F - y \<le> y / 9007199254740992"
    by simp_all
  then show "F * (9007199254740992 / 9007199254740993) \<le> y"
    "y \<le> F * (9007199254740992 / 9007199254740991)"
    by linarith+
qed

lemma two_roundings:
  fixes y F P :: rat
  assumes "\<bar>y - F\<bar> \<le> y / 2 ^ 53" "\<bar>P - y\<bar> \<le> P / 2 ^ 53"
  shows "F * (9007199254740992 / 9007199254740993) * (9007199254740992 / 9007199254740993) \<le> P"
    and "P \<le> F * (9007199254740992 / 9007199254740991) * (9007199254740992 / 9007199254740991)"
proof -
  note y = one_rounding [OF assms(1)]
  note P = one_rounding [OF assms(2)]
  from y(1) have "F * (9007199254740992 / 9007199254740993) * (9007199254740992 / 9007199254740993)
      \<le> y * (9007199254740992 / 9007199254740993)"
    by (rule mult_right_mono) simp
  with P(1) show "F * (9007199254740992 / 9007199254740993) * (9007199254740992 / 9007199254740993) \<le> P"
    by (rule order_trans [rotated])
  from y(2) have "y * (9007199254740992 / 9007199254740991)
      \<le> F * (9007199254740992 / 9007199254740991) * (9007199254740992 / 9007199254740991)"
    by (rule mult_right_mono) simp
  with P(2) show "P \<le> F * (9007199254740992 / 9007199254740991) * (9007199254740992 / 9007199254740991)"
    by (rule order_trans)
qed

lemma round_trip_tolerance:
  fixes y F P :: rat
  assumes "\<bar>y - F\<bar> \<le> y / 2 ^ 53" "\<bar>P - y\<bar> \<le> P / 2 ^ 53" "0 \<le> F"
  shows "\<bar>P - F\<bar> \<le> F / 2 ^ 51"
proof -
  have "P - F \<le> F / 2251799813685248" "F - P \<le> F / 2251799813685248"
    using two_roundings [OF assms(1,2)] assms(3) by linarith+
  then show ?thesis by (intro abs_leI) simp_all
qed

lemma two_paths_tolerance:
  fixes a b T :: rat
  assumes "\<bar>y - T\<bar> \<le> y / 2 ^ 53" "\<bar>a - y\<bar> \<le> a / 2 ^ 53"
    and "\<bar>z - T\<bar> \<le> z / 2 ^ 53" "\<bar>b - z\<bar> \<le> b / 2 ^ 53" "0 \<le> b"
  shows "\<bar>a - b\<bar> \<le> b / 2 ^ 50"
proof -
  have "a - b \<le> b / 1125899906842624" "b - a \<le> b / 1125899906842624"
    using two_roundings [OF assms(1,2)] two_roundings [OF assms(3,4)] assms(5) by linarith+
  then show ?thesis by (intro abs_leI) simp_all
qed

lemma rel_divide:
  fixes g x p :: rat
  assumes "\<bar>g - x\<bar> \<le> g / 2 ^ 53" "0 < p"
  shows "\<bar>g / p - x / p\<bar> \<le> g / p / 2 ^ 53"
proof -
  have "g / p - x / p = (g - x) / p" by (simp add: diff_divide_distrib)
  then have "\<bar>g / p - x / p\<bar> = \<bar>g - x\<bar> / p" using assms(2) by simp
  also have "\<dots> \<le> g / 2 ^ 53 / p" using assms by (intro divide_right_mono) simp_all
  finally show ?thesis by simp
qed

lemma rel_times:
  fixes v x p :: rat
  assumes "\<bar>v - x / p\<bar> \<le> v / 2 ^ 53" "0 < p"
  shows "\<bar>v * p - x\<bar> \<le> v * p / 2 ^ 53"
proof -
  have "v * p - x = (v - x / p) * p" using assms(2) by (simp add: left_diff_distrib)
  then have "\<bar>v * p - x\<bar> = \<bar>v - x / p\<bar> * p" using assms(2) by (simp add: abs_mult)
  also have "\<dots> \<le> v / 2 ^ 53 * p" using assms by (intro mult_right_mono) simp_all
  finally show ?thesis by simp
qed

text \<open>A quotient whose result is finite and not zero had a finite divisor that is not zero.\<close>

lemma div_result_positive:
  assumes "js_div (Num False (Fin a)) (Num False P) = Num False (Fin v)" "0 < v" "0 < a"
    and "P = Infty \<or> (\<exists>p. P = Fin p \<and> 0 \<le> p)"
  obtains p where "P = Fin p" "0 < p" "round_magnitude (a / p) = Fin v"
  using assms(4)
proof (elim disjE exE conjE)
  assume "P = Infty"
  with assms(1,2) show thesis by simp
next
  fix p assume P: "P = Fin p" and p: "0 \<le> p"
  show thesis
  proof (cases "p = 0")
    case True
    with assms(1,3) P show thesis by simp
  next
    case False
    with p have "0 < p" by simp
    moreover from assms(1) False have "round_magnitude (a / p) = Fin v" unfolding P by simp
    ultimately show thesis using P by (intro that [of p]) simp_all
  qed
qed

subsection \<open>The round trip\<close>

text \<open>Two roundings lie between the fuel price and the product.\<close>

lemma round_trip_bound:
  assumes "results st = Some r" "fuelPriceNum st = Some (Num False (Fin F))"
    and "evFuelEquivalent r = Num False (Fin v)" "1 / 2 ^ 1022 \<le> v"
    and "js_mul (evFuelEquivalent r) (electricCostPerDist r) = Num False (Fin P)"
      "1 / 2 ^ 1022 \<le> P"
  shows "\<bar>P - F\<bar> \<le> F / 2 ^ 51"
proof -
  from assms(1) obtain c and x :: rat and f e where s:
    "electricityCostNum st = Some (Num False (Fin c))" "0 < c"
    "fuelPriceNum st = Some (Num False (Fin f))" "0 < f"
    "1 / 2 ^ 1074 \<le> e"
    "electricCostPerDist r = Num False (round_magnitude (c / e))"
    "evFuelEquivalent r = js_div (Num False (Fin f)) (electricCostPerDist r)"
    by (rule results_shape)
  from s(3) assms(2) have f: "f = F" by simp
  have e: "0 < e" using s(5) by (rule less_le_trans [rotated]) simp
  have v: "0 < v" using assms(4) by (rule less_le_trans [rotated]) simp
  have m: "round_magnitude (c / e) = Infty \<or> (\<exists>p. round_magnitude (c / e) = Fin p \<and> 0 \<le> p)"
    using s(2) e by (cases rule: electric_cost_shape) auto
  from assms(3) have "js_div (Num False (Fin f)) (Num False (round_magnitude (c / e)))
      = Num False (Fin v)" by (simp add: s(6,7))
  from this v s(4) m obtain p where p: "round_magnitude (c / e) = Fin p" "0 < p"
    "round_magnitude (f / p) = Fin v" by (rule div_result_positive)
  from assms(5) have P: "round_magnitude (v * p) = Fin P"
    by (simp add: assms(3) s(6) p(1))
  from rel_times [OF round_rel_result [OF p(3) assms(4)] p(2)]
  have 1: "\<bar>v * p - F\<bar> \<le> v * p / 2 ^ 53" unfolding f .
  note 2 = round_rel_result [OF P assms(6)]
  from s(4) f have "0 \<le> F" by simp
  with 1 2 show ?thesis by (rule round_trip_tolerance)
qed

text \<open>The two ways to the efficiency factor round twice each.\<close>

lemma efficiency_factor_bound:
  assumes "unitSystem st = US" "comparison st = Some c" "results st = Some r"
    and "iceEfficiencyNum st = Some ice"
    and "gasCostPerDist c = Num False (Fin g)" "1 / 2 ^ 1022 \<le> g"
    and "efficiencyFactor c = Num False (Fin a)" "1 / 2 ^ 1022 \<le> a"
    and "evFuelEquivalent r = Num False (Fin v)" "1 / 2 ^ 1022 \<le> v"
    and "js_div (evFuelEquivalent r) ice = Num False (Fin b)" "1 / 2 ^ 1022 \<le> b"
  shows "\<bar>a - b\<bar> \<le> b / 2 ^ 50"
proof -
  from assms(2) obtain r' f i G where s:
    "results st = Some r'"
    "fuelPriceNum st = Some (Num False (Fin f))" "0 < f"
    "iceEfficiencyNum st = Some (Num False (Fin i))" "0 < i"
    "(case unitSystem st of US \<Rightarrow> js_div (Num False (Fin f)) (Num False (Fin i))
        | METRIC \<Rightarrow> js_div (js_mul (Num False (Fin f)) (Num False (Fin i))) (lit 100))
       = Num False G"
    "gasCostPerDist c = Num False G"
    "efficiencyFactor c = js_div (Num False G) (electricCostPerDist r')"
    by (rule comparison_shape)
  from s(1) assms(3) have r': "r' = r" by simp
  from s(4) assms(4) have ice: "ice = Num False (Fin i)" by simp
  from s(7) assms(5) have G: "G = Fin g" by simp
  from s(6) s(5) have g: "round_magnitude (f / i) = Fin g"
    unfolding assms(1) G by simp
  from assms(3) obtain c' and x :: rat and f' e where t:
    "electricityCostNum st = Some (Num False (Fin c'))" "0 < c'"
    "fuelPriceNum st = Some (Num False (Fin f'))"
    "1 / 2 ^ 1074 \<le> e"
    "electricCostPerDist r = Num False (round_magnitude (c' / e))"
    "evFuelEquivalent r = js_div (Num False (Fin f')) (electricCostPerDist r)"
    by (rule results_shape)
  from t(3) s(2) have f': "f' = f" by simp
  have e: "0 < e" using t(4) by (rule less_le_trans [rotated]) simp
  have g0: "0 < g" using assms(6) by (rule less_le_trans [rotated]) simp
  have a0: "0 < a" using assms(8) by (rule less_le_trans [rotated]) simp
  have b0: "0 < b" using assms(12) by (rule less_le_trans [rotated]) simp
  have m: "round_magnitude (c' / e) = Infty \<or> (\<exists>p. round_magnitude (c' / e) = Fin p \<and> 0 \<le> p)"
    using t(2) e by (cases rule: electric_cost_shape) auto
  from s(8) assms(7) have "js_div (Num False (Fin g)) (Num False (round_magnitude (c' / e)))
      = Num False (Fin a)" by (simp add: r' G t(5))
  from this a0 g0 m obtain p where p: "round_magnitude (c' / e) = Fin p" "0 < p"
    "round_magnitude (g / p) = Fin a" by (rule div_result_positive)
  from assms(9) p(2) have v: "round_magnitude (f / p) = Fin v"
    by (simp add: t(6) t(5) p(1) f')
  from assms(11) s(5) have b: "round_magnitude (v / i) = Fin b"
    by (simp add: assms(9) ice)
  have T: "f / i / p = f / p / i" by simp
  note 1 = rel_divide [OF round_rel_result [OF g assms(6)] p(2)]
  note 2 = round_rel_result [OF p(3) assms(8)]
  note 3 = rel_divide [OF round_rel_result [OF v assms(10)] s(5)]
  note 4 = round_rel_result [OF b assms(12)]
  from 1 2 3 [folded T] 4 less_imp_le [OF b0] show ?thesis by (rule two_paths_tolerance)
qed

lemma results_None_iff:
  "results st = None \<longleftrightarrow>
     electricityCostNum st = None \<or> efficiencyNum st = None \<or> fuelPriceNum st = None"
  by (simp add: results_def Let_def split: option.splits)

lemma comparison_None_iff:
  "comparison st = None \<longleftrightarrow> results st = None \<or> iceEfficiencyNum st = None"
  by (auto simp: comparison_def results_def Let_def split: option.splits)

lemma iceEfficiencyNum_positive: "iceEfficiencyNum st = Some ice \<Longrightarrow> positive_finite ice"
  unfolding iceEfficiencyNum_def by (auto split: if_splits intro: parsePositiveNumber_positive)

lemma round_zero_iff:
  assumes "0 \<le> x"
  shows "round_magnitude x = Fin 0 \<longleftrightarrow> x \<le> 1 / 2 ^ 1075"
proof
  assume r: "round_magnitude x = Fin 0"
  show "x \<le> 1 / 2 ^ 1075"
  proof (rule ccontr)
    assume "\<not> x \<le> 1 / 2 ^ 1075"
    then have "1 / 2 ^ 1075 < x" by simp
    from round_positive [OF this r] show False by simp
  qed
next
  assume "x \<le> 1 / 2 ^ 1075"
  with assms show "round_magnitude x = Fin 0" by (rule round_zero)
qed

text \<open>What the derivation returns, in terms of signs.\<close>

lemma results_signs:
  assumes "results st = Some r"
  obtains c e P where
    "electricityCostNum st = Some (Num False (Fin c))" "0 < c"
    "effectiveEfficiency r = Num False (Fin e)" "1 / 2 ^ 1074 \<le> e"
    "electricCostPerDist r = Num False P" "P = round_magnitude (c / e)"
    "P = Infty \<or> (\<exists>p. P = Fin p \<and> 0 \<le> p)"
    "non_negative (evFuelEquivalent r)"
    "P = Fin 0 \<longrightarrow> evFuelEquivalent r = Num False Infty"
proof -
  from assms obtain c and x :: rat and f e where s:
    "electricityCostNum st = Some (Num False (Fin c))" "0 < c"
    "0 < f"
    "effectiveEfficiency r = Num False (Fin e)" "1 / 2 ^ 1074 \<le> e"
    "electricCostPerDist r = Num False (round_magnitude (c / e))"
    "evFuelEquivalent r = js_div (Num False (Fin f)) (electricCostPerDist r)"
    by (rule results_shape)
  have e: "0 < e" using s(5) by (rule less_le_trans [rotated]) simp
  have m: "round_magnitude (c / e) = Infty \<or> (\<exists>p. round_magnitude (c / e) = Fin p \<and> 0 \<le> p)"
    using s(2) e by (cases rule: electric_cost_shape) auto
  from div_by_magnitude [OF s(3) m] have n: "non_negative (evFuelEquivalent r)"
    unfolding s(7) s(6) by (auto simp: non_negative_Num)
  have z: "round_magnitude (c / e) = Fin 0 \<longrightarrow> evFuelEquivalent r = Num False Infty"
    using s(3) by (simp add: s(7) s(6))
  from s(1,2,4,5,6) refl m n z show thesis by (rule that)
qed

lemma zero_cost_factor:
  assumes "comparison st = Some c" "results st = Some r"
    "electricCostPerDist r = Num False (Fin 0)"
  shows "efficiencyFactor c = Num False Infty \<or> efficiencyFactor c = NaN"
proof -
  from assms(1) obtain r' and f i :: rat and G where s:
    "results st = Some r'"
    "G = Infty \<or> (\<exists>g. G = Fin g \<and> 0 \<le> g \<and> round_magnitude g = Fin g)"
    "efficiencyFactor c = js_div (Num False G) (electricCostPerDist r')"
    by (rule comparison_shape)
  from s(1) assms(2) have "r' = r" by simp
  with s(2,3) assms(3) show ?thesis by auto
qed

text \<open>What the comparison returns, in terms of signs.\<close>

lemma comparison_signs:
  assumes "comparison st = Some c"
  shows "non_negative (gasCostPerDist c)"
    and "efficiencyFactor c = NaN \<or> non_negative (efficiencyFactor c)"
    and "\<not> js_gt (percentSavings c) (lit 100)"
    and "\<not> js_gt (gasCostPerDist c) (lit 0) \<longleftrightarrow> gasCostPerDist c = Num False (Fin 0)"
proof -
  from assms obtain r and f i :: rat and G where s:
    "results st = Some r"
    "G = Infty \<or> (\<exists>g. G = Fin g \<and> 0 \<le> g \<and> round_magnitude g = Fin g)"
    "gasCostPerDist c = Num False G"
    "savingsPerDist c = js_sub (Num False G) (electricCostPerDist r)"
    "percentSavings c =
       (if js_gt (Num False G) (lit 0)
        then js_mul (js_div (savingsPerDist c) (Num False G)) (lit 100) else lit 0)"
    "efficiencyFactor c = js_div (Num False G) (electricCostPerDist r)"
    by (rule comparison_shape)
  from s(1) obtain P where p: "electricCostPerDist r = Num False P"
    "P = Infty \<or> (\<exists>p. P = Fin p \<and> 0 \<le> p)"
    by (rule results_signs)
  from s(2) show "non_negative (gasCostPerDist c)"
    unfolding s(3) by (auto simp: non_negative_Num)
  from factor_shape [OF s(2) p(2)]
  show "efficiencyFactor c = NaN \<or> non_negative (efficiencyFactor c)"
    unfolding s(6) p(1) by (auto simp: non_negative_Num)
  from percent_bound [OF s(2) p(2)] show "\<not> js_gt (percentSavings c) (lit 100)"
    unfolding s(5) s(4) p(1) .
  from s(2) show "\<not> js_gt (gasCostPerDist c) (lit 0) \<longleftrightarrow> gasCostPerDist c = Num False (Fin 0)"
    unfolding s(3) by (auto simp: js_gt_def)
qed

lemma ordinary_signs:
  assumes "electricityCostNum st = Some Ce" "ordinary Ce"
    and "efficiencyNum st = Some E_raw" "ordinary E_raw"
    and "fuelPriceNum st = Some Cf" "ordinary Cf"
  shows "results st = Some r \<Longrightarrow>
      positive_finite (electricCostPerDist r) \<and> positive_finite (evFuelEquivalent r)"
    and "comparison st = Some c \<Longrightarrow> iceEfficiencyNum st = Some ice \<Longrightarrow> ordinary ice \<Longrightarrow>
      positive_finite (gasCostPerDist c) \<and> positive_finite (efficiencyFactor c)"
proof -
  assume "results st = Some r"
  from this assms obtain p v where q: "electricCostPerDist r = Num False (Fin p)" "1 / 2 ^ 500 \<le> p"
    "evFuelEquivalent r = Num False (Fin v)" "1 / 2 ^ 751 \<le> v"
    by (rule ordinary_results)
  show "positive_finite (electricCostPerDist r) \<and> positive_finite (evFuelEquivalent r)"
    unfolding q(1,3) using positive_finite_ge [OF q(2)] positive_finite_ge [OF q(4)] by blast
next
  assume "comparison st = Some c" "iceEfficiencyNum st = Some ice" "ordinary ice"
  from this(1) assms this(2,3) obtain g a where q:
    "gasCostPerDist c = Num False (Fin g)" "1 / 2 ^ 507 \<le> g"
    "efficiencyFactor c = Num False (Fin a)" "1 / 2 ^ 1008 \<le> a"
    by (rule ordinary_comparison)
  show "positive_finite (gasCostPerDist c) \<and> positive_finite (efficiencyFactor c)"
    unfolding q(1,3) using positive_finite_ge [OF q(2)] positive_finite_ge [OF q(4)] by blast
qed

lemma scenario_ordinary:
  "ordinary (Num False (Fin (1080863910568919 / 9007199254740992)))"
  "ordinary (Num False (Fin (7 / 2)))" "ordinary (Num False (Fin 4))"
  "ordinary (Num False (Fin 30))"
  unfolding ordinary_def lit_bounds by simp_all

subsection \<open>An electricity cost and a fuel price of 5e-324\<close>

lemma both_tiny_memos:
  "electricityCostNum (scenario\<lparr>electricityCost := str ''5e-324'', fuelPrice := str ''5e-324''\<rparr>)
     = Some (Num False (Fin (1 / 2 ^ 1074)))"
  "efficiencyNum (scenario\<lparr>electricityCost := str ''5e-324'', fuelPrice := str ''5e-324''\<rparr>)
     = Some (Num False (Fin (7 / 2)))"
  "fuelPriceNum (scenario\<lparr>electricityCost := str ''5e-324'', fuelPrice := str ''5e-324''\<rparr>)
     = Some (Num False (Fin (1 / 2 ^ 1074)))"
  "iceEfficiencyNum (scenario\<lparr>electricityCost := str ''5e-324'', fuelPrice := str ''5e-324''\<rparr>)
     = Some (Num False (Fin 30))"
     apply (simp_all add: scenario_def memo_defs Number_scenario Number_5e_324)
  apply (simp add: trim_def str_def is_ws_def)
  done

lemma both_tiny_results:
  "results (scenario\<lparr>electricityCost := str ''5e-324'', fuelPrice := str ''5e-324''\<rparr>) =
     Some \<lparr>electricCostPerDist = Num False (Fin 0), evFuelEquivalent = Num False Infty,
       rawEfficiency = Num False (Fin (7 / 2)),
       effectiveEfficiency = Num False (Fin (7093169413108531 / 2251799813685248))\<rparr>"
  by (simp add: results_def both_tiny_memos CHARGING_EFFICIENCY_value round_E_effective round_zero)

lemma both_tiny_comparison:
  "comparison (scenario\<lparr>electricityCost := str ''5e-324'', fuelPrice := str ''5e-324''\<rparr>) =
     Some \<lparr>gasCostPerDist = Num False (Fin 0),
       efficiencyDisplay = Num False (Fin 30),
       savingsPerDist = Num False (Fin 0),
       percentSavings = Num False (Fin 0),
       efficiencyFactor = NaN\<rparr>"
proof -
  have "unitSystem (scenario\<lparr>electricityCost := str ''5e-324'', fuelPrice := str ''5e-324''\<rparr>) = US"
    by (simp add: scenario_def)
  then show ?thesis
    by (simp add: comparison_def both_tiny_results both_tiny_memos round_zero
        js_sub_def js_gt_def signed_def Let_def)
qed

subsection \<open>Inputs between \<open>2 ^ - 250\<close> and \<open>2 ^ 250\<close>\<close>

lemma ordinary_round_trip:
  assumes "results st = Some r"
    and "electricityCostNum st = Some Ce" "ordinary Ce"
    and "efficiencyNum st = Some E_raw" "ordinary E_raw"
    and "fuelPriceNum st = Some (Num False (Fin F))" "ordinary (Num False (Fin F))"
  shows "\<exists>P. js_mul (evFuelEquivalent r) (electricCostPerDist r) = Num False (Fin P)
           \<and> \<bar>P - F\<bar> \<le> F / 2 ^ 51"
proof -
  from assms(7) obtain F' where "Num False (Fin F) = Num False (Fin F')"
    "1 / 2 ^ 250 \<le> F'" "F' \<le> 2 ^ 250" by (rule ordinaryD)
  then have F: "1 / 2 ^ 250 \<le> F" "F \<le> 2 ^ 250" by simp_all
  from assms obtain p v where q: "electricCostPerDist r = Num False (Fin p)" "1 / 2 ^ 500 \<le> p"
    "evFuelEquivalent r = Num False (Fin v)" "1 / 2 ^ 751 \<le> v"
    by (rule ordinary_results)
  from assms(1) obtain c x e :: rat and f where s:
    "fuelPriceNum st = Some (Num False (Fin f))"
    "evFuelEquivalent r = js_div (Num False (Fin f)) (electricCostPerDist r)"
    by (rule results_shape)
  from s(1) assms(6) have f: "f = F" by simp
  have p0: "0 < p" using q(2) by (rule less_le_trans [rotated]) simp
  from s(2) have v: "round_magnitude (F / p) = Fin v"
    using p0 by (simp add: q(1,3) f)
  have "(1 / 2 ^ 1022 :: rat) \<le> 1 / 2 ^ 751" by simp
  then have vn: "1 / 2 ^ 1022 \<le> v" using q(4) by (rule order_trans)
  note y = one_rounding [OF rel_times [OF round_rel_result [OF v vn] p0]]
  have "1 / 2 ^ 251 = 1 / 2 ^ 250 * (1 / 2 :: rat)" by simp
  also have "\<dots> \<le> F * (9007199254740992 / 9007199254740993)"
    using F(1) by (intro mult_mono) simp_all
  also note y(1)
  finally have lo: "1 / 2 ^ 251 \<le> v * p" .
  have F0: "0 \<le> F" using F(1) by (rule order_trans [rotated]) simp
  note y(2)
  also have "F * (9007199254740992 / 9007199254740991) \<le> 2 ^ 250 * 2"
    using F(2) F0 by (intro mult_mono) simp_all
  also have "\<dots> = (2 :: rat) ^ 251" by simp
  finally have hi: "v * p \<le> 2 ^ 251" .
  from round_between [OF lo hi double_inv_pow2 double_pow2] obtain P where
    P: "round_magnitude (v * p) = Fin P" "1 / 2 ^ 251 \<le> P" by auto
  have "(1 / 2 ^ 1022 :: rat) \<le> 1 / 2 ^ 251" by simp
  then have Pn: "1 / 2 ^ 1022 \<le> P" using P(2) by (rule order_trans)
  have m: "js_mul (evFuelEquivalent r) (electricCostPerDist r) = Num False (Fin P)"
    by (simp add: q(1,3) P(1))
  from round_trip_bound [OF assms(1,6) q(3) vn m Pn] m show ?thesis by blast
qed

lemma ordinary_two_paths:
  assumes "unitSystem st = US" "comparison st = Some c" "results st = Some r"
    and "electricityCostNum st = Some Ce" "ordinary Ce"
    and "efficiencyNum st = Some E_raw" "ordinary E_raw"
    and "fuelPriceNum st = Some Cf" "ordinary Cf"
    and "iceEfficiencyNum st = Some ice" "ordinary ice"
  shows "\<exists>a b. efficiencyFactor c = Num False (Fin a)
           \<and> js_div (evFuelEquivalent r) ice = Num False (Fin b)
           \<and> \<bar>a - b\<bar> \<le> b / 2 ^ 50"
proof -
  from assms(2,4-11) obtain g a where k:
    "gasCostPerDist c = Num False (Fin g)" "1 / 2 ^ 507 \<le> g"
    "efficiencyFactor c = Num False (Fin a)" "1 / 2 ^ 1008 \<le> a"
    by (rule ordinary_comparison)
  from assms(3-9) obtain p :: rat and v where q:
    "evFuelEquivalent r = Num False (Fin v)" "1 / 2 ^ 751 \<le> v" "v \<le> 2 ^ 750"
    by (rule ordinary_results)
  from assms(11) obtain i where i: "ice = Num False (Fin i)" "1 / 2 ^ 250 \<le> i" "i \<le> 2 ^ 250"
    by (rule ordinaryD)
  have i0: "0 < i" using i(2) by (rule less_le_trans [rotated]) simp
  from ordinary_quotient [OF q(2,3) i(2,3)] obtain b where
    b: "round_magnitude (v / i) = Fin b" "1 / 2 ^ (751 + 250) \<le> b" by auto
  have d: "js_div (evFuelEquivalent r) ice = Num False (Fin b)"
    using i0 by (simp add: q(1) i(1) b(1))
  have "(1 / 2 ^ 1022 :: rat) \<le> 1 / 2 ^ 507" by simp
  then have gn: "1 / 2 ^ 1022 \<le> g" using k(2) by (rule order_trans)
  have "(1 / 2 ^ 1022 :: rat) \<le> 1 / 2 ^ 1008" by simp
  then have an: "1 / 2 ^ 1022 \<le> a" using k(4) by (rule order_trans)
  have "(1 / 2 ^ 1022 :: rat) \<le> 1 / 2 ^ 751" by simp
  then have vn: "1 / 2 ^ 1022 \<le> v" using q(2) by (rule order_trans)
  have "(1 / 2 ^ 1022 :: rat) \<le> 1 / 2 ^ (751 + 250)" by simp
  then have bn: "1 / 2 ^ 1022 \<le> b" using b(2) by (rule order_trans)
  from efficiency_factor_bound [OF assms(1,2,3,10) k(1) gn k(3) an q(1) vn d bn] k(3) d
  show ?thesis by blast
qed

subsection \<open>A fuel price of 0.12\<close>

lemma round_equivalent_cheap: "round_magnitude (17293822569102704 / 5490102402889747) = Fin (1773292353277133 / 562949953421312)"
  by (rule round_magnitude_eval [where b = 1023 and n = 7093169413108532, OF _ _ _ rhe_eq]) simp_all

lemma round_product_cheap: "round_magnitude (9735556609752802006424735255351 / 81129638414606681695789005144064) = Fin (8646911284551353 / 72057594037927936)"
  by (rule round_magnitude_eval [where b = 1018 and n = 8646911284551353, OF _ _ _ rhe_eq]) simp_all

lemma cheap_fuel_memos:
  "electricityCostNum (scenario\<lparr>fuelPrice := str ''0.12''\<rparr>)
     = Some (Num False (Fin (1080863910568919 / 9007199254740992)))"
  "efficiencyNum (scenario\<lparr>fuelPrice := str ''0.12''\<rparr>) = Some (Num False (Fin (7 / 2)))"
  "fuelPriceNum (scenario\<lparr>fuelPrice := str ''0.12''\<rparr>)
     = Some (Num False (Fin (1080863910568919 / 9007199254740992)))"
  by (simp_all add: scenario_def memo_defs Number_scenario)

lemma cheap_fuel_results:
  "results (scenario\<lparr>fuelPrice := str ''0.12''\<rparr>) =
     Some \<lparr>electricCostPerDist = Num False (Fin (5490102402889747 / 144115188075855872)),
       evFuelEquivalent = Num False (Fin (1773292353277133 / 562949953421312)),
       rawEfficiency = Num False (Fin (7 / 2)),
       effectiveEfficiency = Num False (Fin (7093169413108531 / 2251799813685248))\<rparr>"
  by (simp add: results_def cheap_fuel_memos CHARGING_EFFICIENCY_value round_E_effective
      round_electricCostPerDist round_equivalent_cheap)

lemma ordinary_35: "ordinary (Num False (Fin 35))"
  unfolding ordinary_def lit_bounds by simp

section \<open>The claims about rounding in the calculator\<close>

text \<open>
  C6, as amended. The engine is a total function of the five signals: a result is absent
  exactly when one of the inputs it needs did not parse, and no operation of the engine can
  throw. Of its divisors, the effective efficiency, the ICE efficiency and the constant 100
  are finite and strictly positive. The electric cost per distance is not negative, but it is
  zero when the quotient \<^verbatim>\<open>Ce / E_effective\<close> is at most \<open>2 ^ - 1075\<close> and so underflows; the
  divisions by it then return \<^verbatim>\<open>Infinity\<close> (or \<^verbatim>\<open>NaN\<close>), they do not fail. The gas cost
  per distance is a divisor only under the test that it is greater than zero.
\<close>

theorem engine_divisors:
  "(results st = None \<longleftrightarrow>
      electricityCostNum st = None \<or> efficiencyNum st = None \<or> fuelPriceNum st = None)
   \<and> (comparison st = None \<longleftrightarrow> results st = None \<or> iceEfficiencyNum st = None)
   \<and> (\<forall>r. results st = Some r \<longrightarrow>
         positive_finite (effectiveEfficiency r)
         \<and> non_negative (electricCostPerDist r)
         \<and> (\<exists>c e. electricityCostNum st = Some (Num False (Fin c))
               \<and> effectiveEfficiency r = Num False (Fin e)
               \<and> (electricCostPerDist r = Num False (Fin 0) \<longleftrightarrow> c / e \<le> 1 / 2 ^ 1075))
         \<and> (electricCostPerDist r = Num False (Fin 0)
               \<longrightarrow> evFuelEquivalent r = Num False Infty))
   \<and> (\<forall>c r. comparison st = Some c \<and> results st = Some r
         \<and> electricCostPerDist r = Num False (Fin 0)
       \<longrightarrow> efficiencyFactor c = Num False Infty \<or> efficiencyFactor c = NaN)
   \<and> (\<forall>c. comparison st = Some c \<and> js_gt (gasCostPerDist c) (lit 0)
       \<longrightarrow> gasCostPerDist c \<noteq> Num False (Fin 0))
   \<and> (\<forall>ice. iceEfficiencyNum st = Some ice \<longrightarrow> positive_finite ice)
   \<and> positive_finite (lit 100)"
proof (intro conjI allI impI)
  show "results st = None \<longleftrightarrow>
      electricityCostNum st = None \<or> efficiencyNum st = None \<or> fuelPriceNum st = None"
    by (rule results_None_iff)
  show "comparison st = None \<longleftrightarrow> results st = None \<or> iceEfficiencyNum st = None"
    by (rule comparison_None_iff)
  show "positive_finite (lit 100)" unfolding lit_100 by (rule positive_finiteI) simp
next
  fix ice assume "iceEfficiencyNum st = Some ice"
  then show "positive_finite ice" by (rule iceEfficiencyNum_positive)
next
  fix c assume "comparison st = Some c \<and> js_gt (gasCostPerDist c) (lit 0)"
  then show "gasCostPerDist c \<noteq> Num False (Fin 0)" by (auto simp: js_gt_def)
next
  fix c r
  assume "comparison st = Some c \<and> results st = Some r
         \<and> electricCostPerDist r = Num False (Fin 0)"
  then have a: "comparison st = Some c" "results st = Some r"
    "electricCostPerDist r = Num False (Fin 0)" by simp_all
  show "efficiencyFactor c = Num False Infty \<or> efficiencyFactor c = NaN"
    using a(2,3) by (rule zero_cost_factor [OF a(1)])
next
  fix r assume r: "results st = Some r"
  then obtain c e P where s:
    "electricityCostNum st = Some (Num False (Fin c))" "0 < c"
    "effectiveEfficiency r = Num False (Fin e)" "1 / 2 ^ 1074 \<le> e"
    "electricCostPerDist r = Num False P" "P = round_magnitude (c / e)"
    "P = Infty \<or> (\<exists>p. P = Fin p \<and> 0 \<le> p)"
    "P = Fin 0 \<longrightarrow> evFuelEquivalent r = Num False Infty"
    by (rule results_signs)
  have e: "0 < e" using s(4) by (rule less_le_trans [rotated]) simp
  show "positive_finite (effectiveEfficiency r)" unfolding s(3) using s(4)
    by (rule positive_finite_ge)
  show "non_negative (electricCostPerDist r)" unfolding s(5) using s(7)
    by (auto simp: non_negative_Num)
  have "0 \<le> c / e" using s(2) e by simp
  from round_zero_iff [OF this]
  have "electricCostPerDist r = Num False (Fin 0) \<longleftrightarrow> c / e \<le> 1 / 2 ^ 1075"
    by (simp add: s(5) s(6))
  with s(1) s(3)
  show "\<exists>c e. electricityCostNum st = Some (Num False (Fin c))
               \<and> effectiveEfficiency r = Num False (Fin e)
               \<and> (electricCostPerDist r = Num False (Fin 0) \<longleftrightarrow> c / e \<le> 1 / 2 ^ 1075)"
    by blast
  assume "electricCostPerDist r = Num False (Fin 0)"
  with s(8) show "evFuelEquivalent r = Num False Infty" by (simp add: s(5))
qed

theorem engine_divisors_witness:
  "results scenario \<noteq> None \<and> comparison scenario \<noteq> None
   \<and> positive_finite (Num False (Fin (7093169413108531 / 2251799813685248)))
   \<and> non_negative (Num False (Fin (5490102402889747 / 144115188075855872)))
   \<and> positive_finite (Num False (Fin 30))
   \<and> positive_finite (lit 100)
   \<and> evFuelEquivalent
      \<lparr>electricCostPerDist = Num False (Fin 0), evFuelEquivalent = Num False Infty,
       rawEfficiency = Num False (Fin (7 / 2)),
       effectiveEfficiency = Num False (Fin (7093169413108531 / 2251799813685248))\<rparr>
     = Num False Infty"
proof -
  note t = engine_divisors [of scenario]
  note 1 = t [THEN conjunct1]
  note 2 = t [THEN conjunct2, THEN conjunct1]
  note 3 = t [THEN conjunct2, THEN conjunct2, THEN conjunct1, rule_format, OF scenario_results]
  note 4 = t [THEN conjunct2, THEN conjunct2, THEN conjunct2, THEN conjunct2, THEN conjunct2,
      THEN conjunct1, rule_format, OF scenario_memos(4)]
  note 5 = t [THEN conjunct2, THEN conjunct2, THEN conjunct2, THEN conjunct2, THEN conjunct2,
      THEN conjunct2]
  note u = engine_divisors [of "scenario\<lparr>electricityCost := str ''5e-324''\<rparr>"]
  note 6 = u [THEN conjunct2, THEN conjunct2, THEN conjunct1, rule_format, OF tiny_cost_results]
  from 6 [THEN conjunct2, THEN conjunct2, THEN conjunct2]
  have e: "evFuelEquivalent
      \<lparr>electricCostPerDist = Num False (Fin 0), evFuelEquivalent = Num False Infty,
       rawEfficiency = Num False (Fin (7 / 2)),
       effectiveEfficiency = Num False (Fin (7093169413108531 / 2251799813685248))\<rparr>
     = Num False Infty" by simp
  have h: "comparison (scenario\<lparr>electricityCost := str ''5e-324''\<rparr>) =
     Some \<lparr>gasCostPerDist = Num False (Fin (4803839602528529 / 36028797018963968)),
       efficiencyDisplay = Num False (Fin 30),
       savingsPerDist = Num False (Fin (4803839602528529 / 36028797018963968)),
       percentSavings = Num False (Fin 100),
       efficiencyFactor = Num False Infty\<rparr>
     \<and> results (scenario\<lparr>electricityCost := str ''5e-324''\<rparr>) =
     Some \<lparr>electricCostPerDist = Num False (Fin 0), evFuelEquivalent = Num False Infty,
       rawEfficiency = Num False (Fin (7 / 2)),
       effectiveEfficiency = Num False (Fin (7093169413108531 / 2251799813685248))\<rparr>
     \<and> electricCostPerDist
       \<lparr>electricCostPerDist = Num False (Fin 0), evFuelEquivalent = Num False Infty,
       rawEfficiency = Num False (Fin (7 / 2)),
       effectiveEfficiency = Num False (Fin (7093169413108531 / 2251799813685248))\<rparr>
       = Num False (Fin 0)"
    by (intro conjI tiny_cost_comparison tiny_cost_results) simp
  note 7 = u [THEN conjunct2, THEN conjunct2, THEN conjunct2, THEN conjunct1, rule_format, OF h]
  have g: "comparison scenario = Some
       \<lparr>gasCostPerDist = Num False (Fin (4803839602528529 / 36028797018963968)),
        efficiencyDisplay = Num False (Fin 30),
        savingsPerDist = Num False (Fin (857828500451523 / 9007199254740992)),
        percentSavings = Num False (Fin (5026338869833143 / 70368744177664)),
        efficiencyFactor = Num False (Fin (7881299347898369 / 2251799813685248))\<rparr>
      \<and> js_gt (gasCostPerDist
       \<lparr>gasCostPerDist = Num False (Fin (4803839602528529 / 36028797018963968)),
        efficiencyDisplay = Num False (Fin 30),
        savingsPerDist = Num False (Fin (857828500451523 / 9007199254740992)),
        percentSavings = Num False (Fin (5026338869833143 / 70368744177664)),
        efficiencyFactor = Num False (Fin (7881299347898369 / 2251799813685248))\<rparr>) (lit 0)"
    by (intro conjI scenario_comparison) (simp add: js_gt_def)
  note 8 = t [THEN conjunct2, THEN conjunct2, THEN conjunct2, THEN conjunct2, THEN conjunct1,
      rule_format, OF g]
  from 1 have a: "results scenario \<noteq> None" by (simp add: scenario_memos)
  from 2 a have b: "comparison scenario \<noteq> None" by (simp add: scenario_memos)
  from 3 [THEN conjunct1]
  have c: "positive_finite (Num False (Fin (7093169413108531 / 2251799813685248)))" by simp
  from 3 [THEN conjunct2, THEN conjunct1]
  have d: "non_negative (Num False (Fin (5490102402889747 / 144115188075855872)))" by simp
  from a b c d 4 5 e show ?thesis by simp
qed

text \<open>
  With an electricity cost of 5e-324, which the parser accepts, the electric cost per distance
  is zero and it is the divisor of the next division, whose result is \<^verbatim>\<open>Infinity\<close>.
\<close>

theorem engine_divisors_counterexample:
  "electricityCostNum (scenario\<lparr>electricityCost := str ''5e-324''\<rparr>)
     = Some (Num False (Fin (1 / 2 ^ 1074)))
   \<and> map_option electricCostPerDist (results (scenario\<lparr>electricityCost := str ''5e-324''\<rparr>))
       = Some (Num False (Fin 0))
   \<and> map_option evFuelEquivalent (results (scenario\<lparr>electricityCost := str ''5e-324''\<rparr>))
       = Some (Num False Infty)"
  by (simp add: tiny_cost_results tiny_cost_memos del: power_numeral)

text \<open>
  C9, as amended. Whenever the derivation is present the effective efficiency is finite and
  strictly positive, and the electric cost per distance and the fuel-equivalent efficiency
  are not negative; whenever the comparison is present the gas cost per distance is not
  negative, the efficiency factor is not negative or is \<^verbatim>\<open>NaN\<close>, the fallback of
  \<^verbatim>\<open>percentSavings\<close> is taken exactly when the gas cost per distance is zero, and
  \<^verbatim>\<open>percentSavings\<close> is never greater than 100. When the inputs lie between \<open>2 ^ - 250\<close>
  and \<open>2 ^ 250\<close> no quotient underflows or overflows: the electric cost per distance, the
  fuel-equivalent efficiency, the gas cost per distance and the efficiency factor are then
  finite and strictly positive, and the fallback is not taken.
\<close>

theorem positivity_invariant:
  "(\<forall>r. results st = Some r \<longrightarrow>
       positive_finite (effectiveEfficiency r) \<and> non_negative (electricCostPerDist r)
       \<and> non_negative (evFuelEquivalent r))
   \<and> (\<forall>c. comparison st = Some c \<longrightarrow>
       non_negative (gasCostPerDist c)
       \<and> (efficiencyFactor c = NaN \<or> non_negative (efficiencyFactor c))
       \<and> (\<not> js_gt (gasCostPerDist c) (lit 0) \<longleftrightarrow> gasCostPerDist c = Num False (Fin 0))
       \<and> \<not> js_gt (percentSavings c) (lit 100))
   \<and> (\<forall>Ce E_raw Cf. electricityCostNum st = Some Ce \<and> ordinary Ce
         \<and> efficiencyNum st = Some E_raw \<and> ordinary E_raw
         \<and> fuelPriceNum st = Some Cf \<and> ordinary Cf \<longrightarrow>
       (\<forall>r. results st = Some r \<longrightarrow>
          positive_finite (electricCostPerDist r) \<and> positive_finite (evFuelEquivalent r))
       \<and> (\<forall>c ice. comparison st = Some c \<and> iceEfficiencyNum st = Some ice \<and> ordinary ice \<longrightarrow>
          positive_finite (gasCostPerDist c) \<and> positive_finite (efficiencyFactor c)
          \<and> js_gt (gasCostPerDist c) (lit 0)))"
proof (intro conjI allI impI)
  fix r assume r: "results st = Some r"
  then obtain c :: rat and e P where s:
    "effectiveEfficiency r = Num False (Fin e)" "1 / 2 ^ 1074 \<le> e"
    "electricCostPerDist r = Num False P"
    "P = Infty \<or> (\<exists>p. P = Fin p \<and> 0 \<le> p)"
    "non_negative (evFuelEquivalent r)"
    by (rule results_signs)
  show "positive_finite (effectiveEfficiency r)" unfolding s(1) using s(2)
    by (rule positive_finite_ge)
  show "non_negative (electricCostPerDist r)" unfolding s(3) using s(4)
    by (auto simp: non_negative_Num)
  show "non_negative (evFuelEquivalent r)" by (rule s(5))
next
  fix c assume c: "comparison st = Some c"
  show "non_negative (gasCostPerDist c)"
    "efficiencyFactor c = NaN \<or> non_negative (efficiencyFactor c)"
    "\<not> js_gt (gasCostPerDist c) (lit 0) \<longleftrightarrow> gasCostPerDist c = Num False (Fin 0)"
    "\<not> js_gt (percentSavings c) (lit 100)"
    by (rule comparison_signs [OF c])+
next
  fix Ce E_raw Cf r
  assume "electricityCostNum st = Some Ce \<and> ordinary Ce
         \<and> efficiencyNum st = Some E_raw \<and> ordinary E_raw
         \<and> fuelPriceNum st = Some Cf \<and> ordinary Cf"
  then have o: "electricityCostNum st = Some Ce" "ordinary Ce"
    "efficiencyNum st = Some E_raw" "ordinary E_raw"
    "fuelPriceNum st = Some Cf" "ordinary Cf" by simp_all
  assume "results st = Some r"
  from ordinary_signs(1) [OF o this]
  show "positive_finite (electricCostPerDist r)" "positive_finite (evFuelEquivalent r)"
    by simp_all
next
  fix Ce E_raw Cf c ice
  assume "electricityCostNum st = Some Ce \<and> ordinary Ce
         \<and> efficiencyNum st = Some E_raw \<and> ordinary E_raw
         \<and> fuelPriceNum st = Some Cf \<and> ordinary Cf"
  then have o: "electricityCostNum st = Some Ce" "ordinary Ce"
    "efficiencyNum st = Some E_raw" "ordinary E_raw"
    "fuelPriceNum st = Some Cf" "ordinary Cf" by simp_all
  assume "comparison st = Some c \<and> iceEfficiencyNum st = Some ice \<and> ordinary ice"
  then have c: "comparison st = Some c" "iceEfficiencyNum st = Some ice" "ordinary ice"
    by simp_all
  from ordinary_signs(2) [OF o c]
  show g: "positive_finite (gasCostPerDist c)" and "positive_finite (efficiencyFactor c)"
    by simp_all
  from g show "js_gt (gasCostPerDist c) (lit 0)" by (simp add: positive_finite_def)
qed

theorem positivity_invariant_witness:
  "results scenario \<noteq> None \<and> comparison scenario \<noteq> None
   \<and> ordinary (Num False (Fin (1080863910568919 / 9007199254740992)))
   \<and> ordinary (Num False (Fin (7 / 2))) \<and> ordinary (Num False (Fin 4))
   \<and> ordinary (Num False (Fin 30))
   \<and> positive_finite (Num False (Fin (7093169413108531 / 2251799813685248)))
   \<and> positive_finite (Num False (Fin (5490102402889747 / 144115188075855872)))
   \<and> positive_finite (Num False (Fin (7388718138654721 / 70368744177664)))
   \<and> positive_finite (Num False (Fin (4803839602528529 / 36028797018963968)))
   \<and> positive_finite (Num False (Fin (7881299347898369 / 2251799813685248)))
   \<and> js_gt (Num False (Fin (4803839602528529 / 36028797018963968))) (lit 0)
   \<and> \<not> js_gt (Num False (Fin (5026338869833143 / 70368744177664))) (lit 100)"
proof -
  note t = positivity_invariant [of scenario]
  note 1 = t [THEN conjunct1, rule_format, OF scenario_results]
  note 2 = t [THEN conjunct2, THEN conjunct1, rule_format, OF scenario_comparison]
  have h: "electricityCostNum scenario = Some (Num False (Fin (1080863910568919 / 9007199254740992)))
      \<and> ordinary (Num False (Fin (1080863910568919 / 9007199254740992)))
      \<and> efficiencyNum scenario = Some (Num False (Fin (7 / 2))) \<and> ordinary (Num False (Fin (7 / 2)))
      \<and> fuelPriceNum scenario = Some (Num False (Fin 4)) \<and> ordinary (Num False (Fin 4))"
    by (intro conjI scenario_memos scenario_ordinary)
  note 3 = t [THEN conjunct2, THEN conjunct2, rule_format, OF h]
  note 4 = 3 [THEN conjunct1, rule_format, OF scenario_results]
  have i: "comparison scenario = Some
       \<lparr>gasCostPerDist = Num False (Fin (4803839602528529 / 36028797018963968)),
        efficiencyDisplay = Num False (Fin 30),
        savingsPerDist = Num False (Fin (857828500451523 / 9007199254740992)),
        percentSavings = Num False (Fin (5026338869833143 / 70368744177664)),
        efficiencyFactor = Num False (Fin (7881299347898369 / 2251799813685248))\<rparr>
      \<and> iceEfficiencyNum scenario = Some (Num False (Fin 30)) \<and> ordinary (Num False (Fin 30))"
    by (intro conjI scenario_comparison scenario_memos scenario_ordinary)
  note 5 = 3 [THEN conjunct2, rule_format, OF i]
  have a: "results scenario \<noteq> None" "comparison scenario \<noteq> None"
    by (simp_all add: scenario_results scenario_comparison)
  from 1 [THEN conjunct1]
  have b: "positive_finite (Num False (Fin (7093169413108531 / 2251799813685248)))" by simp
  from 4 have c: "positive_finite (Num False (Fin (5490102402889747 / 144115188075855872)))"
    "positive_finite (Num False (Fin (7388718138654721 / 70368744177664)))" by simp_all
  from 5 have d: "positive_finite (Num False (Fin (4803839602528529 / 36028797018963968)))"
    "positive_finite (Num False (Fin (7881299347898369 / 2251799813685248)))"
    "js_gt (Num False (Fin (4803839602528529 / 36028797018963968))) (lit 0)" by simp_all
  from 2 [THEN conjunct2, THEN conjunct2, THEN conjunct2]
  have e: "\<not> js_gt (Num False (Fin (5026338869833143 / 70368744177664))) (lit 100)" by simp
  from a scenario_ordinary b c d e show ?thesis by blast
qed

text \<open>
  With an electricity cost of 5e-324 the electric cost per distance is zero, not strictly
  positive, and \<^verbatim>\<open>percentSavings\<close> is 100. With a fuel price of 5e-324 the gas cost per
  distance is zero and the fallback of \<^verbatim>\<open>percentSavings\<close> is taken.
\<close>

theorem positivity_counterexample:
  "map_option electricCostPerDist (results (scenario\<lparr>electricityCost := str ''5e-324''\<rparr>))
     = Some (Num False (Fin 0))
   \<and> \<not> js_gt (Num False (Fin 0)) (lit 0)
   \<and> map_option percentSavings (comparison (scenario\<lparr>electricityCost := str ''5e-324''\<rparr>))
       = Some (lit 100)
   \<and> \<not> js_lt (lit 100) (lit 100)
   \<and> map_option gasCostPerDist (comparison (scenario\<lparr>fuelPrice := str ''5e-324''\<rparr>))
       = Some (Num False (Fin 0))
   \<and> map_option (\<lambda>c. js_gt (gasCostPerDist c) (lit 0))
        (comparison (scenario\<lparr>fuelPrice := str ''5e-324''\<rparr>)) = Some False"
  by (simp add: tiny_cost_results tiny_cost_comparison tiny_price_comparison lit_100 js_gt_def)

text \<open>
  C2, as amended. The round trip holds within floating-point tolerance as long as no
  quotient underflows or overflows. Whenever the fuel-equivalent efficiency and the product
  \<^verbatim>\<open>fuelEquivalentEfficiency * electricCostPerDistance\<close> are normal doubles (finite and at
  least \<open>2 ^ - 1022\<close>), the product differs from the fuel price by at most \<open>2 ^ - 51\<close> times
  the fuel price; and for every triple of inputs between \<open>2 ^ - 250\<close> and \<open>2 ^ 250\<close> the
  product is such a double. The identity is exact over the rationals only.
\<close>

theorem round_trip_within_tolerance:
  "(results st = Some r \<and> fuelPriceNum st = Some (Num False (Fin F))
      \<and> evFuelEquivalent r = Num False (Fin v) \<and> 1 / 2 ^ 1022 \<le> v
      \<and> js_mul (evFuelEquivalent r) (electricCostPerDist r) = Num False (Fin P)
      \<and> 1 / 2 ^ 1022 \<le> P
    \<longrightarrow> \<bar>P - F\<bar> \<le> F / 2 ^ 51)
   \<and> (results st = Some r \<and> electricityCostNum st = Some Ce \<and> ordinary Ce
      \<and> efficiencyNum st = Some E_raw \<and> ordinary E_raw
      \<and> fuelPriceNum st = Some (Num False (Fin F)) \<and> ordinary (Num False (Fin F))
    \<longrightarrow> (\<exists>P'. js_mul (evFuelEquivalent r) (electricCostPerDist r) = Num False (Fin P')
           \<and> \<bar>P' - F\<bar> \<le> F / 2 ^ 51))"
proof (intro conjI impI)
  assume "results st = Some r \<and> fuelPriceNum st = Some (Num False (Fin F))
      \<and> evFuelEquivalent r = Num False (Fin v) \<and> 1 / 2 ^ 1022 \<le> v
      \<and> js_mul (evFuelEquivalent r) (electricCostPerDist r) = Num False (Fin P)
      \<and> 1 / 2 ^ 1022 \<le> P"
  then have a: "results st = Some r" "fuelPriceNum st = Some (Num False (Fin F))"
    "evFuelEquivalent r = Num False (Fin v)" "1 / 2 ^ 1022 \<le> v"
    "js_mul (evFuelEquivalent r) (electricCostPerDist r) = Num False (Fin P)"
    "1 / 2 ^ 1022 \<le> P" by blast+
  then show "\<bar>P - F\<bar> \<le> F / 2 ^ 51" by (rule round_trip_bound)
next
  assume "results st = Some r \<and> electricityCostNum st = Some Ce \<and> ordinary Ce
      \<and> efficiencyNum st = Some E_raw \<and> ordinary E_raw
      \<and> fuelPriceNum st = Some (Num False (Fin F)) \<and> ordinary (Num False (Fin F))"
  then have a: "results st = Some r" "electricityCostNum st = Some Ce" "ordinary Ce"
    "efficiencyNum st = Some E_raw" "ordinary E_raw"
    "fuelPriceNum st = Some (Num False (Fin F))" "ordinary (Num False (Fin F))" by blast+
  then show "\<exists>P'. js_mul (evFuelEquivalent r) (electricCostPerDist r) = Num False (Fin P')
           \<and> \<bar>P' - F\<bar> \<le> F / 2 ^ 51" by (rule ordinary_round_trip)
qed

theorem round_trip_within_tolerance_witness:
  "fuelPriceNum (scenario\<lparr>fuelPrice := str ''0.12''\<rparr>)
     = Some (Num False (Fin (1080863910568919 / 9007199254740992)))
   \<and> ordinary (Num False (Fin (1080863910568919 / 9007199254740992)))
   \<and> ordinary (Num False (Fin (7 / 2)))
   \<and> map_option evFuelEquivalent (results (scenario\<lparr>fuelPrice := str ''0.12''\<rparr>))
       = Some (Num False (Fin (1773292353277133 / 562949953421312)))
   \<and> (1 / 2 ^ 1022 :: rat) \<le> 1773292353277133 / 562949953421312
   \<and> map_option (\<lambda>r. js_mul (evFuelEquivalent r) (electricCostPerDist r))
        (results (scenario\<lparr>fuelPrice := str ''0.12''\<rparr>))
       = Some (Num False (Fin (8646911284551353 / 72057594037927936)))
   \<and> (1 / 2 ^ 1022 :: rat) \<le> 8646911284551353 / 72057594037927936
   \<and> \<bar>8646911284551353 / 72057594037927936 - 1080863910568919 / 9007199254740992 :: rat\<bar>
       \<le> 1080863910568919 / 9007199254740992 / 2 ^ 51
   \<and> (\<exists>P'. Num False (Fin (8646911284551353 / 72057594037927936)) = Num False (Fin P')
         \<and> \<bar>P' - 1080863910568919 / 9007199254740992\<bar>
             \<le> 1080863910568919 / 9007199254740992 / 2 ^ 51)"
proof -
  let ?st = "scenario\<lparr>fuelPrice := str ''0.12''\<rparr>"
  let ?r = "\<lparr>electricCostPerDist = Num False (Fin (5490102402889747 / 144115188075855872)),
       evFuelEquivalent = Num False (Fin (1773292353277133 / 562949953421312)),
       rawEfficiency = Num False (Fin (7 / 2)),
       effectiveEfficiency = Num False (Fin (7093169413108531 / 2251799813685248))\<rparr>"
  let ?F = "1080863910568919 / 9007199254740992 :: rat"
  let ?P = "8646911284551353 / 72057594037927936 :: rat"
  note t = round_trip_within_tolerance [of ?st ?r ?F "1773292353277133 / 562949953421312" ?P
      "Num False (Fin ?F)" "Num False (Fin (7 / 2))"]
  have v: "evFuelEquivalent ?r = Num False (Fin (1773292353277133 / 562949953421312))" by simp
  have n1: "(1 / 2 ^ 1022 :: rat) \<le> 1773292353277133 / 562949953421312" by simp
  have P: "js_mul (evFuelEquivalent ?r) (electricCostPerDist ?r) = Num False (Fin ?P)"
    by (simp add: round_product_cheap)
  have n2: "(1 / 2 ^ 1022 :: rat) \<le> ?P" by simp
  have h1: "results ?st = Some ?r \<and> fuelPriceNum ?st = Some (Num False (Fin ?F))
      \<and> evFuelEquivalent ?r = Num False (Fin (1773292353277133 / 562949953421312))
      \<and> 1 / 2 ^ 1022 \<le> (1773292353277133 / 562949953421312 :: rat)
      \<and> js_mul (evFuelEquivalent ?r) (electricCostPerDist ?r) = Num False (Fin ?P)
      \<and> 1 / 2 ^ 1022 \<le> ?P"
    by (intro conjI cheap_fuel_results cheap_fuel_memos v n1 P n2)
  have h2: "results ?st = Some ?r \<and> electricityCostNum ?st = Some (Num False (Fin ?F))
      \<and> ordinary (Num False (Fin ?F))
      \<and> efficiencyNum ?st = Some (Num False (Fin (7 / 2))) \<and> ordinary (Num False (Fin (7 / 2)))
      \<and> fuelPriceNum ?st = Some (Num False (Fin ?F)) \<and> ordinary (Num False (Fin ?F))"
    by (intro conjI cheap_fuel_results cheap_fuel_memos scenario_ordinary)
  note 1 = t [THEN conjunct1, rule_format, OF h1]
  note 2 = t [THEN conjunct2, rule_format, OF h2]
  from 2 have 3: "\<exists>P'. Num False (Fin ?P) = Num False (Fin P')
         \<and> \<bar>P' - ?F\<bar> \<le> ?F / 2 ^ 51" unfolding P .
  have 4: "map_option evFuelEquivalent (results ?st)
       = Some (Num False (Fin (1773292353277133 / 562949953421312)))"
    by (simp add: cheap_fuel_results)
  have 5: "map_option (\<lambda>r. js_mul (evFuelEquivalent r) (electricCostPerDist r)) (results ?st)
       = Some (Num False (Fin ?P))"
    unfolding cheap_fuel_results using P by simp
  from cheap_fuel_memos(3) scenario_ordinary(1,2) 4 n1 5 n2 1 3 show ?thesis by blast
qed

text \<open>
  With an electricity cost of 5e-324 the electric cost per distance underflows to zero, the
  fuel-equivalent efficiency is infinite, and their product is \<^verbatim>\<open>NaN\<close>, not the fuel
  price 4.
\<close>

theorem round_trip_counterexample:
  "map_option (\<lambda>r. js_mul (evFuelEquivalent r) (electricCostPerDist r))
     (results (scenario\<lparr>electricityCost := str ''5e-324''\<rparr>)) = Some NaN
   \<and> fuelPriceNum (scenario\<lparr>electricityCost := str ''5e-324''\<rparr>) = Some (Num False (Fin 4))"
  by (simp add: tiny_cost_results tiny_cost_memos)

text \<open>
  C10, as amended. In the US unit system the comparison computes the efficiency factor as
  \<^verbatim>\<open>(fuelPrice / iceEfficiency) / electricCostPerDistance\<close>; the other path is
  \<^verbatim>\<open>(fuelPrice / electricCostPerDistance) / iceEfficiency\<close>. Each path rounds twice, so the
  two agree within floating-point tolerance as long as no quotient underflows or overflows:
  whenever the four quotients are normal doubles (finite and at least \<open>2 ^ - 1022\<close>) they
  differ by at most \<open>2 ^ - 50\<close> times the second, and for all inputs between \<open>2 ^ - 250\<close>
  and \<open>2 ^ 250\<close> the four quotients are such doubles.
\<close>

theorem efficiency_factor_two_paths:
  "(unitSystem st = US \<and> comparison st = Some c \<and> results st = Some r
      \<and> iceEfficiencyNum st = Some ice
      \<and> gasCostPerDist c = Num False (Fin g) \<and> 1 / 2 ^ 1022 \<le> g
      \<and> efficiencyFactor c = Num False (Fin a) \<and> 1 / 2 ^ 1022 \<le> a
      \<and> evFuelEquivalent r = Num False (Fin v) \<and> 1 / 2 ^ 1022 \<le> v
      \<and> js_div (evFuelEquivalent r) ice = Num False (Fin b) \<and> 1 / 2 ^ 1022 \<le> b
    \<longrightarrow> \<bar>a - b\<bar> \<le> b / 2 ^ 50)
   \<and> (unitSystem st = US \<and> comparison st = Some c \<and> results st = Some r
      \<and> electricityCostNum st = Some Ce \<and> ordinary Ce
      \<and> efficiencyNum st = Some E_raw \<and> ordinary E_raw
      \<and> fuelPriceNum st = Some Cf \<and> ordinary Cf
      \<and> iceEfficiencyNum st = Some ice \<and> ordinary ice
    \<longrightarrow> (\<exists>a' b'. efficiencyFactor c = Num False (Fin a')
           \<and> js_div (evFuelEquivalent r) ice = Num False (Fin b')
           \<and> \<bar>a' - b'\<bar> \<le> b' / 2 ^ 50))"
proof (intro conjI impI)
  assume "unitSystem st = US \<and> comparison st = Some c \<and> results st = Some r
      \<and> iceEfficiencyNum st = Some ice
      \<and> gasCostPerDist c = Num False (Fin g) \<and> 1 / 2 ^ 1022 \<le> g
      \<and> efficiencyFactor c = Num False (Fin a) \<and> 1 / 2 ^ 1022 \<le> a
      \<and> evFuelEquivalent r = Num False (Fin v) \<and> 1 / 2 ^ 1022 \<le> v
      \<and> js_div (evFuelEquivalent r) ice = Num False (Fin b) \<and> 1 / 2 ^ 1022 \<le> b"
  then have "unitSystem st = US" "comparison st = Some c" "results st = Some r"
    "iceEfficiencyNum st = Some ice"
    "gasCostPerDist c = Num False (Fin g)" "1 / 2 ^ 1022 \<le> g"
    "efficiencyFactor c = Num False (Fin a)" "1 / 2 ^ 1022 \<le> a"
    "evFuelEquivalent r = Num False (Fin v)" "1 / 2 ^ 1022 \<le> v"
    "js_div (evFuelEquivalent r) ice = Num False (Fin b)" "1 / 2 ^ 1022 \<le> b" by blast+
  then show "\<bar>a - b\<bar> \<le> b / 2 ^ 50" by (rule efficiency_factor_bound)
next
  assume "unitSystem st = US \<and> comparison st = Some c \<and> results st = Some r
      \<and> electricityCostNum st = Some Ce \<and> ordinary Ce
      \<and> efficiencyNum st = Some E_raw \<and> ordinary E_raw
      \<and> fuelPriceNum st = Some Cf \<and> ordinary Cf
      \<and> iceEfficiencyNum st = Some ice \<and> ordinary ice"
  then have "unitSystem st = US" "comparison st = Some c" "results st = Some r"
    "electricityCostNum st = Some Ce" "ordinary Ce"
    "efficiencyNum st = Some E_raw" "ordinary E_raw"
    "fuelPriceNum st = Some Cf" "ordinary Cf"
    "iceEfficiencyNum st = Some ice" "ordinary ice" by blast+
  then show "\<exists>a' b'. efficiencyFactor c = Num False (Fin a')
           \<and> js_div (evFuelEquivalent r) ice = Num False (Fin b')
           \<and> \<bar>a' - b'\<bar> \<le> b' / 2 ^ 50" by (rule ordinary_two_paths)
qed

theorem efficiency_factor_two_paths_witness:
  "unitSystem (scenario\<lparr>iceEfficiency := str ''35''\<rparr>) = US
   \<and> iceEfficiencyNum (scenario\<lparr>iceEfficiency := str ''35''\<rparr>) = Some (Num False (Fin 35))
   \<and> ordinary (Num False (Fin 35))
   \<and> map_option efficiencyFactor (comparison (scenario\<lparr>iceEfficiency := str ''35''\<rparr>))
       = Some (Num False (Fin 3))
   \<and> map_option (\<lambda>r. js_div (evFuelEquivalent r) (Num False (Fin 35)))
       (results (scenario\<lparr>iceEfficiency := str ''35''\<rparr>))
       = Some (Num False (Fin (6755399441055745 / 2251799813685248)))
   \<and> (1 / 2 ^ 1022 :: rat) \<le> 3
   \<and> \<bar>3 - 6755399441055745 / 2251799813685248 :: rat\<bar>
       \<le> 6755399441055745 / 2251799813685248 / 2 ^ 50
   \<and> (\<exists>a' b'. Num False (Fin 3) = Num False (Fin a')
         \<and> Num False (Fin (6755399441055745 / 2251799813685248)) = Num False (Fin b')
         \<and> \<bar>a' - b'\<bar> \<le> b' / 2 ^ 50)"
proof -
  let ?st = "scenario\<lparr>iceEfficiency := str ''35''\<rparr>"
  let ?r = "\<lparr>electricCostPerDist = Num False (Fin (5490102402889747 / 144115188075855872)),
       evFuelEquivalent = Num False (Fin (7388718138654721 / 70368744177664)),
       rawEfficiency = Num False (Fin (7 / 2)),
       effectiveEfficiency = Num False (Fin (7093169413108531 / 2251799813685248))\<rparr>"
  let ?c = "\<lparr>gasCostPerDist = Num False (Fin (8235153604334621 / 72057594037927936)),
       efficiencyDisplay = Num False (Fin 35),
       savingsPerDist = Num False (Fin (1372525600722437 / 18014398509481984)),
       percentSavings = Num False (Fin (4691249611844267 / 70368744177664)),
       efficiencyFactor = Num False (Fin 3)\<rparr>"
  let ?b = "6755399441055745 / 2251799813685248 :: rat"
  note t = efficiency_factor_two_paths [of ?st ?c ?r "Num False (Fin 35)"
      "8235153604334621 / 72057594037927936" 3 "7388718138654721 / 70368744177664" ?b
      "Num False (Fin (1080863910568919 / 9007199254740992))" "Num False (Fin (7 / 2))"
      "Num False (Fin 4)"]
  have u: "unitSystem ?st = US" by (simp add: scenario_def)
  have g: "gasCostPerDist ?c = Num False (Fin (8235153604334621 / 72057594037927936))" by simp
  have a: "efficiencyFactor ?c = Num False (Fin 3)" by simp
  have v: "evFuelEquivalent ?r = Num False (Fin (7388718138654721 / 70368744177664))" by simp
  have b: "js_div (evFuelEquivalent ?r) (Num False (Fin 35)) = Num False (Fin ?b)"
    by (simp add: round_equivalent_by_35)
  have n: "(1 / 2 ^ 1022 :: rat) \<le> 8235153604334621 / 72057594037927936"
    "(1 / 2 ^ 1022 :: rat) \<le> 3"
    "(1 / 2 ^ 1022 :: rat) \<le> 7388718138654721 / 70368744177664"
    "(1 / 2 ^ 1022 :: rat) \<le> ?b"
    by simp_all
  have h1: "unitSystem ?st = US \<and> comparison ?st = Some ?c \<and> results ?st = Some ?r
      \<and> iceEfficiencyNum ?st = Some (Num False (Fin 35))
      \<and> gasCostPerDist ?c = Num False (Fin (8235153604334621 / 72057594037927936))
      \<and> 1 / 2 ^ 1022 \<le> (8235153604334621 / 72057594037927936 :: rat)
      \<and> efficiencyFactor ?c = Num False (Fin 3) \<and> 1 / 2 ^ 1022 \<le> (3 :: rat)
      \<and> evFuelEquivalent ?r = Num False (Fin (7388718138654721 / 70368744177664))
      \<and> 1 / 2 ^ 1022 \<le> (7388718138654721 / 70368744177664 :: rat)
      \<and> js_div (evFuelEquivalent ?r) (Num False (Fin 35)) = Num False (Fin ?b)
      \<and> 1 / 2 ^ 1022 \<le> ?b"
    by (intro conjI u mpg_35_comparison mpg_35_results mpg_35_memos(4) g a v b n)
  have h2: "unitSystem ?st = US \<and> comparison ?st = Some ?c \<and> results ?st = Some ?r
      \<and> electricityCostNum ?st = Some (Num False (Fin (1080863910568919 / 9007199254740992)))
      \<and> ordinary (Num False (Fin (1080863910568919 / 9007199254740992)))
      \<and> efficiencyNum ?st = Some (Num False (Fin (7 / 2))) \<and> ordinary (Num False (Fin (7 / 2)))
      \<and> fuelPriceNum ?st = Some (Num False (Fin 4)) \<and> ordinary (Num False (Fin 4))
      \<and> iceEfficiencyNum ?st = Some (Num False (Fin 35)) \<and> ordinary (Num False (Fin 35))"
    by (intro conjI u mpg_35_comparison mpg_35_results mpg_35_memos scenario_ordinary ordinary_35)
  note 1 = t [THEN conjunct1, rule_format, OF h1]
  note 2 = t [THEN conjunct2, rule_format, OF h2]
  from 2 have 3: "\<exists>a' b'. Num False (Fin 3) = Num False (Fin a')
         \<and> Num False (Fin ?b) = Num False (Fin b')
         \<and> \<bar>a' - b'\<bar> \<le> b' / 2 ^ 50" unfolding a b .
  have 4: "map_option efficiencyFactor (comparison ?st) = Some (Num False (Fin 3))"
    by (simp add: mpg_35_comparison)
  have 5: "map_option (\<lambda>r. js_div (evFuelEquivalent r) (Num False (Fin 35))) (results ?st)
       = Some (Num False (Fin ?b))"
    unfolding mpg_35_results using b by simp
  from u mpg_35_memos(4) ordinary_35 4 5 n(2) 1 3 show ?thesis by blast
qed

text \<open>
  With an electricity cost and a fuel price of 5e-324, in the US unit system, the efficiency
  factor is \<^verbatim>\<open>0 / 0\<close>, which is \<^verbatim>\<open>NaN\<close>, and the fuel-equivalent efficiency divided by the
  ICE efficiency is \<^verbatim>\<open>Infinity\<close>.
\<close>

theorem efficiency_factor_counterexample:
  "unitSystem (scenario\<lparr>electricityCost := str ''5e-324'', fuelPrice := str ''5e-324''\<rparr>) = US
   \<and> iceEfficiencyNum (scenario\<lparr>electricityCost := str ''5e-324'', fuelPrice := str ''5e-324''\<rparr>)
       = Some (Num False (Fin 30))
   \<and> map_option efficiencyFactor
        (comparison (scenario\<lparr>electricityCost := str ''5e-324'', fuelPrice := str ''5e-324''\<rparr>))
       = Some NaN
   \<and> map_option (\<lambda>r. js_div (evFuelEquivalent r) (Num False (Fin 30)))
        (results (scenario\<lparr>electricityCost := str ''5e-324'', fuelPrice := str ''5e-324''\<rparr>))
       = Some (Num False Infty)"
proof -
  have "unitSystem (scenario\<lparr>electricityCost := str ''5e-324'', fuelPrice := str ''5e-324''\<rparr>) = US"
    by (simp add: scenario_def)
  then show ?thesis
    by (simp add: both_tiny_comparison both_tiny_results both_tiny_memos)
qed

section \<open>The Gradle patcher: occurrences and insertions\<close>

lemma includes_str_sublist: "includes_str content needle \<longleftrightarrow> sublist needle content"
  by (induction content) (simp_all add: sublist_Cons_right)

text \<open>
  Text put between two pieces keeps every occurrence of a needle that does not straddle
  the seam.
\<close>

lemma sublist_insert:
  assumes "sublist n (xs @ ys)"
    and "\<And>n1 n2. n = n1 @ n2 \<Longrightarrow> n1 \<noteq> [] \<Longrightarrow> n2 \<noteq> [] \<Longrightarrow> suffix n1 xs \<Longrightarrow> prefix n2 ys \<Longrightarrow> False"
  shows "sublist n (xs @ m @ ys)"
proof -
  from assms(1) consider "sublist n xs" | "sublist n ys"
    | n1 n2 where "n = n1 @ n2" "suffix n1 xs" "prefix n2 ys"
    unfolding sublist_append by blast
  then show ?thesis
  proof cases
    case 1
    then show ?thesis by (auto simp: sublist_append)
  next
    case 2
    then show ?thesis by (auto simp: sublist_append)
  next
    case 3
    show ?thesis
    proof (cases "n1 = [] \<or> n2 = []")
      case True
      with 3 have "sublist n xs \<or> sublist n ys" by auto
      then show ?thesis by (auto simp: sublist_append)
    next
      case False
      with 3 assms(2) show ?thesis by blast
    qed
  qed
qed

lemma sublist_insert_before:
  assumes "sublist n (xs @ b # ys)" "b \<notin> set n"
  shows "sublist n (xs @ m @ b # ys)"
proof (rule sublist_insert [OF assms(1)])
  fix n1 n2
  assume "n = n1 @ n2" "n2 \<noteq> []" "prefix n2 (b # ys)"
  then have "b \<in> set n" by (cases n2) auto
  with assms(2) show False by simp
qed

lemma sublist_insert_after:
  assumes "sublist n ((xs @ [b]) @ ys)" "b \<notin> set n"
  shows "sublist n ((xs @ [b]) @ m @ ys)"
proof (rule sublist_insert [OF assms(1)])
  fix n1 n2
  assume "n = n1 @ n2" "n1 \<noteq> []" "suffix n1 (xs @ [b])"
  then have "b \<in> set n" by (cases n1 rule: rev_cases) (auto simp: suffix_def)
  with assms(2) show False by simp
qed

text \<open>The other way round: an occurrence in the edited text that avoids the inserted piece.\<close>

lemma sublist_remove:
  assumes "sublist n (xs @ m @ ys)"
    and "\<not> sublist n m"
    and "\<And>n1 n2. n = n1 @ n2 \<Longrightarrow> n1 \<noteq> [] \<Longrightarrow> n2 \<noteq> [] \<Longrightarrow> suffix n1 xs \<Longrightarrow> False"
    and "\<And>n1 n2. n = n1 @ n2 \<Longrightarrow> n1 \<noteq> [] \<Longrightarrow> n2 \<noteq> [] \<Longrightarrow> suffix n1 m \<Longrightarrow> False"
  shows "sublist n (xs @ ys)"
proof -
  have my: "sublist n ys" if "sublist n (m @ ys)"
  proof -
    from that consider "sublist n m" | "sublist n ys"
      | n1 n2 where "n = n1 @ n2" "suffix n1 m" "prefix n2 ys"
      unfolding sublist_append by blast
    then show ?thesis
    proof cases
      case 3
      show ?thesis
      proof (cases "n1 = [] \<or> n2 = []")
        case True
        with 3 assms(2) show ?thesis by auto
      next
        case False
        with 3 assms(4) show ?thesis by blast
      qed
    qed (use assms(2) in auto)
  qed
  from assms(1) consider "sublist n xs" | "sublist n (m @ ys)"
    | n1 n2 where "n = n1 @ n2" "suffix n1 xs" "prefix n2 (m @ ys)"
    unfolding sublist_append [of n xs] by blast
  then show ?thesis
  proof cases
    case 1
    then show ?thesis by (auto simp: sublist_append)
  next
    case 2
    with my show ?thesis by (auto simp: sublist_append)
  next
    case 3
    show ?thesis
    proof (cases "n1 = [] \<or> n2 = []")
      case True
      with 3 have "sublist n xs \<or> sublist n (m @ ys)" by auto
      with my show ?thesis by (auto simp: sublist_append)
    next
      case False
      with 3 assms(3) show ?thesis by blast
    qed
  qed
qed

subsection \<open>The regular expressions\<close>

lemma not_ws_brace: "\<not> is_ws 123"
  by (simp add: is_ws_def)

lemma take_drop_at: "s = xs @ ys \<Longrightarrow> n = length xs \<Longrightarrow> take n s = xs \<and> drop n s = ys"
  by simp

lemma anchor_atD:
  assumes "anchor_at kw s = Some n"
  shows "\<exists>ws post. s = kw @ ws @ [123] @ post \<and> list_all is_ws ws \<and> take n s = kw @ ws @ [123]
           \<and> drop n s = post"
proof -
  define r where "r = drop (length kw) s"
  define ws where "ws = takeWhile is_ws r"
  define t where "t = dropWhile is_ws r"
  from assms have p: "prefix kw s" by (simp add: anchor_at_def split: if_splits)
  then have s: "s = kw @ r" by (auto simp: prefix_def r_def)
  from assms p have t: "t \<noteq> []" "hd t = 123" and n: "n = length s - length t + 1"
    by (auto simp: anchor_at_def Let_def r_def t_def split: if_splits)
  from t obtain post where post: "t = 123 # post" by (cases t) auto
  have r: "r = ws @ t" by (simp add: ws_def t_def)
  have s3: "s = (kw @ ws @ [123]) @ post" by (simp add: s r post)
  have l3: "n = length (kw @ ws @ [123])" by (simp add: n s r post)
  note td = take_drop_at [OF s3 l3]
  have w: "list_all is_ws ws" by (auto simp: ws_def list_all_iff dest: set_takeWhileD)
  have "s = kw @ ws @ [123] @ post" by (simp add: s3)
  with td w show ?thesis by blast
qed

lemma anchor_atI:
  assumes "list_all is_ws ws"
  shows "anchor_at kw (kw @ ws @ [123] @ post) \<noteq> None"
proof -
  have "dropWhile is_ws (ws @ 123 # post) = 123 # post"
    using assms not_ws_brace by (simp add: dropWhile_append list_all_iff)
  then show ?thesis by (simp add: anchor_at_def Let_def)
qed

lemma find_anchorD:
  assumes "find_anchor kw s = Some (before, matched, after)"
  shows "s = before @ matched @ after \<and> (\<exists>ws. matched = kw @ ws @ [123] \<and> list_all is_ws ws)"
  using assms
proof (induction s arbitrary: before)
  case Nil
  then show ?case by simp
next
  case (Cons c cs)
  show ?case
  proof (cases "anchor_at kw (c # cs)")
    case (Some n)
    with Cons.prems have e: "before = []" "matched = take n (c # cs)" "after = drop n (c # cs)"
      by simp_all
    have 1: "c # cs = before @ matched @ after" unfolding e by simp
    from anchor_atD [OF Some] have 2: "\<exists>ws. matched = kw @ ws @ [123] \<and> list_all is_ws ws"
      unfolding e by blast
    from 1 2 show ?thesis ..
  next
    case None
    with Cons.prems obtain b' where b: "find_anchor kw cs = Some (b', matched, after)"
      "before = c # b'"
      by (auto split: option.splits)
    from Cons.IH [OF b(1)] b(2) show ?thesis by simp
  qed
qed

lemma find_anchorI:
  assumes "list_all is_ws ws"
  shows "find_anchor kw (before @ kw @ ws @ [123] @ after) \<noteq> None"
proof (induction before)
  case Nil
  have "kw @ ws @ [123] @ after \<noteq> []" by simp
  then obtain c cs where c: "kw @ ws @ [123] @ after = c # cs" by (cases "kw @ ws @ [123] @ after") auto
  from anchor_atI [OF assms, of kw after] show ?case
    unfolding append_Nil c by (auto split: option.splits)
next
  case (Cons c before)
  then show ?case by (auto split: option.splits)
qed

lemma find_anchor_None_iff:
  "find_anchor kw s = None \<longleftrightarrow> \<not> (\<exists>ws. list_all is_ws ws \<and> sublist (kw @ ws @ [123]) s)"
proof
  assume n: "find_anchor kw s = None"
  show "\<not> (\<exists>ws. list_all is_ws ws \<and> sublist (kw @ ws @ [123]) s)"
  proof
    assume "\<exists>ws. list_all is_ws ws \<and> sublist (kw @ ws @ [123]) s"
    then obtain ws ps ss where "list_all is_ws ws" "s = ps @ (kw @ ws @ [123]) @ ss"
      by (auto simp: sublist_def)
    with find_anchorI [of ws kw ps ss] n show False by simp
  qed
next
  assume a: "\<not> (\<exists>ws. list_all is_ws ws \<and> sublist (kw @ ws @ [123]) s)"
  show "find_anchor kw s = None"
  proof (rule ccontr)
    assume "find_anchor kw s \<noteq> None"
    then obtain b m a' where "find_anchor kw s = Some (b, m, a')" by auto
    from find_anchorD [OF this] obtain ws where
      "s = b @ (kw @ ws @ [123]) @ a'" "list_all is_ws ws" by auto
    then have "list_all is_ws ws \<and> sublist (kw @ ws @ [123]) s"
      unfolding sublist_def by blast
    with a show False by blast
  qed
qed

section \<open>The claims about the Gradle patcher\<close>

lemma transform_steps:
  "transform c = fst (apply_release_config (fst (add_signing_config (fst (add_imports c)))))"
  by (simp add: transform_def patch_def split_beta)

subsection \<open>Step 2.1\<close>

lemma add_imports_has_imports:
  "\<forall>imp\<in>set IMPORTS_TO_ADD. sublist imp (fst (add_imports c))"
  by (auto simp: add_imports_def IMPORTS_TO_ADD_def includes_str_sublist Let_def sublist_append)

lemma add_imports_skip:
  assumes "\<forall>imp\<in>set IMPORTS_TO_ADD. sublist imp c"
  shows "fst (add_imports c) = c"
  using assms by (simp add: add_imports_def IMPORTS_TO_ADD_def includes_str_sublist)

subsection \<open>Step 2.2\<close>

lemma add_signing_config_shape:
  "fst (add_signing_config c) = c \<or>
   (\<exists>before ws after. list_all is_ws ws \<and> c = before @ (buildTypesRegex @ ws @ [123]) @ after \<and>
      fst (add_signing_config c) =
        before @ (SIGNING_CONFIG_BLOCK @ str ''\<newline>    '') @ (buildTypesRegex @ ws @ [123]) @ after)"
proof (cases "find_anchor buildTypesRegex c")
  case None
  then show ?thesis by (simp add: add_signing_config_def)
next
  case (Some t)
  obtain before matched after where t: "t = (before, matched, after)" by (cases t)
  from find_anchorD [OF Some [unfolded t]] obtain ws where
    "c = before @ matched @ after" "matched = buildTypesRegex @ ws @ [123]" "list_all is_ws ws"
    by blast
  with Some t show ?thesis by (auto simp: add_signing_config_def)
qed

lemma add_signing_config_keeps:
  assumes "sublist n c" "98 \<notin> set n"
  shows "sublist n (fst (add_signing_config c))"
proof -
  from add_signing_config_shape [of c] show ?thesis
  proof (elim disjE exE conjE)
    assume "fst (add_signing_config c) = c"
    with assms show ?thesis by simp
  next
    fix before ws after
    assume c: "c = before @ (buildTypesRegex @ ws @ [123]) @ after"
      and r: "fst (add_signing_config c) =
        before @ (SIGNING_CONFIG_BLOCK @ str ''\<newline>    '') @ (buildTypesRegex @ ws @ [123]) @ after"
    obtain rest where b: "(buildTypesRegex @ ws @ [123]) @ after = 98 # rest"
      by (simp add: buildTypesRegex_def str_def)
    from assms(1) have "sublist n (before @ 98 # rest)" unfolding c b .
    from sublist_insert_before [OF this assms(2)] show ?thesis unfolding r b .
  qed
qed

lemma block_has_create: \<open>sublist (str ''create("release")'') SIGNING_CONFIG_BLOCK\<close>
  unfolding includes_str_sublist [symmetric]
  by (simp add: SIGNING_CONFIG_BLOCK_def str_def)

lemma block_has_keystore: \<open>sublist (str ''keystore.properties'') SIGNING_CONFIG_BLOCK\<close>
  unfolding includes_str_sublist [symmetric]
  by (simp add: SIGNING_CONFIG_BLOCK_def str_def)

lemma sublist_mid: "sublist n m \<Longrightarrow> sublist n (xs @ (m @ ys) @ zs)"
  by (auto simp: sublist_append)

text \<open>After step 2.2 either both marks of the block are there, or nothing has changed.\<close>

lemma add_signing_config_result:
  \<open>(sublist (str ''create("release")'') (fst (add_signing_config c)) \<and>
    sublist (str ''keystore.properties'') (fst (add_signing_config c)))
   \<or> (fst (add_signing_config c) = c \<and> find_anchor buildTypesRegex c = None)\<close>
proof (cases \<open>includes_str c (str ''create("release")'') \<and> includes_str c (str ''keystore.properties'')\<close>)
  case True
  then show ?thesis by (simp add: add_signing_config_def includes_str_sublist)
next
  case False
  show ?thesis
  proof (cases "find_anchor buildTypesRegex c")
    case None
    then show ?thesis by (simp add: add_signing_config_def)
  next
    case (Some t)
    obtain before matched after where t: "t = (before, matched, after)" by (cases t)
    from False Some t have "fst (add_signing_config c) =
        before @ (SIGNING_CONFIG_BLOCK @ str ''\<newline>    '') @ matched @ after"
      by (auto simp: add_signing_config_def)
    with sublist_mid [OF block_has_create] sublist_mid [OF block_has_keystore]
    show ?thesis by simp
  qed
qed

lemma add_signing_config_skip:
  assumes \<open>sublist (str ''create("release")'') c\<close> \<open>sublist (str ''keystore.properties'') c\<close>
  shows "fst (add_signing_config c) = c"
  using assms by (simp add: add_signing_config_def includes_str_sublist)

lemma add_signing_config_none:
  assumes "find_anchor buildTypesRegex c = None"
  shows "fst (add_signing_config c) = c"
  using assms by (simp add: add_signing_config_def)

subsection \<open>Step 2.3\<close>

lemma line_has_mark:
  \<open>sublist (str ''signingConfig = signingConfigs.getByName("release")'') RELEASE_CONFIG_LINE\<close>
  unfolding includes_str_sublist [symmetric]
  by (simp add: RELEASE_CONFIG_LINE_def str_def)

lemma apply_release_config_shape:
  "fst (apply_release_config c) = c \<or>
   (\<exists>before ws after. list_all is_ws ws \<and> c = ((before @ releaseBlockRegex @ ws) @ [123]) @ after \<and>
      fst (apply_release_config c) =
        ((before @ releaseBlockRegex @ ws) @ [123]) @ (str ''\<newline>'' @ RELEASE_CONFIG_LINE) @ after)"
proof (cases "find_anchor releaseBlockRegex c")
  case None
  then show ?thesis by (simp add: apply_release_config_def)
next
  case (Some t)
  obtain before matched after where t: "t = (before, matched, after)" by (cases t)
  from find_anchorD [OF Some [unfolded t]] obtain ws where
    "c = before @ matched @ after" "matched = releaseBlockRegex @ ws @ [123]" "list_all is_ws ws"
    by blast
  with Some t show ?thesis by (auto simp: apply_release_config_def)
qed

lemma apply_release_config_keeps:
  assumes "sublist n c" "123 \<notin> set n"
  shows "sublist n (fst (apply_release_config c))"
proof -
  from apply_release_config_shape [of c] show ?thesis
  proof (elim disjE exE conjE)
    assume "fst (apply_release_config c) = c"
    with assms show ?thesis by simp
  next
    fix before ws after
    assume c: "c = ((before @ releaseBlockRegex @ ws) @ [123]) @ after"
      and r: "fst (apply_release_config c) =
        ((before @ releaseBlockRegex @ ws) @ [123]) @ (str ''\<newline>'' @ RELEASE_CONFIG_LINE) @ after"
    from assms(1) have "sublist n (((before @ releaseBlockRegex @ ws) @ [123]) @ after)"
      unfolding c .
    from sublist_insert_after [OF this assms(2)] show ?thesis unfolding r .
  qed
qed

lemma apply_release_config_idem:
  "fst (apply_release_config (fst (apply_release_config c))) = fst (apply_release_config c)"
proof (cases \<open>includes_str c (str ''signingConfig = signingConfigs.getByName("release")'')\<close>)
  case True
  then show ?thesis by (simp add: apply_release_config_def)
next
  case False
  show ?thesis
  proof (cases "find_anchor releaseBlockRegex c")
    case None
    with False show ?thesis by (simp add: apply_release_config_def)
  next
    case (Some t)
    obtain before matched after where t: "t = (before, matched, after)" by (cases t)
    from False Some t have r: "fst (apply_release_config c) =
        (before @ matched @ str ''\<newline>'') @ (RELEASE_CONFIG_LINE @ []) @ after"
      by (auto simp: apply_release_config_def)
    have \<open>sublist (str ''signingConfig = signingConfigs.getByName("release")'')
        (fst (apply_release_config c))\<close>
      unfolding r by (rule sublist_mid [OF line_has_mark])
    then show ?thesis
      by (simp add: apply_release_config_def [of "fst (apply_release_config c)"]
          includes_str_sublist)
  qed
qed

text \<open>The line put in by step 2.3 does not create a \<^verbatim>\<open>buildTypes {\<close> that was not there.\<close>

lemma suffix_last: "suffix n1 m \<Longrightarrow> n1 \<noteq> [] \<Longrightarrow> last n1 = last m"
  by (auto simp: suffix_def)

lemma split_butlast: "n = n1 @ n2 \<Longrightarrow> n2 \<noteq> [] \<Longrightarrow> set n1 \<subseteq> set (butlast n)"
  by (auto simp: butlast_append)

lemma apply_release_config_no_anchor:
  assumes "find_anchor buildTypesRegex c = None"
  shows "find_anchor buildTypesRegex (fst (apply_release_config c)) = None"
proof -
  from apply_release_config_shape [of c] show ?thesis
  proof (elim disjE exE conjE)
    assume "fst (apply_release_config c) = c"
    with assms show ?thesis by simp
  next
    fix before ws after
    assume c: "c = ((before @ releaseBlockRegex @ ws) @ [123]) @ after"
      and r: "fst (apply_release_config c) =
        ((before @ releaseBlockRegex @ ws) @ [123]) @ (str ''\<newline>'' @ RELEASE_CONFIG_LINE) @ after"
    let ?xs = "(before @ releaseBlockRegex @ ws) @ [123]"
    let ?m = "str ''\<newline>'' @ RELEASE_CONFIG_LINE"
    have m: "123 \<notin> set ?m" "?m \<noteq> []" "last ?m = 41"
      by (simp_all add: RELEASE_CONFIG_LINE_def str_def)
    show ?thesis unfolding find_anchor_None_iff
    proof (intro notI, elim exE conjE)
      fix ws'
      assume ws': "list_all is_ws ws'" and s: "sublist (buildTypesRegex @ ws' @ [123]) (fst (apply_release_config c))"
      let ?n = "buildTypesRegex @ ws' @ [123]"
      have nw: "\<not> is_ws 123" "\<not> is_ws 41" by (simp_all add: is_ws_def)
      have b: "123 \<notin> set (butlast ?n)"
        using ws' nw by (auto simp: butlast_append buildTypesRegex_def str_def list_all_iff)
      have p: "41 \<notin> set ?n"
        using ws' nw by (auto simp: buildTypesRegex_def str_def list_all_iff)
      have "sublist ?n (?xs @ after)"
      proof (rule sublist_remove [where m = ?m])
        show "sublist ?n (?xs @ ?m @ after)" using s unfolding r .
        show "\<not> sublist ?n ?m"
        proof
          assume "sublist ?n ?m"
          from set_mono_sublist [OF this] m(1) show False by auto
        qed
      next
        fix n1 n2
        assume n: "?n = n1 @ n2" "n1 \<noteq> []" "n2 \<noteq> []" and suf: "suffix n1 ?xs"
        from suffix_last [OF suf n(2)] have "last n1 = 123" by simp
        with n(2) have "123 \<in> set n1" using last_in_set by metis
        with split_butlast [OF n(1) n(3)] b show False by blast
      next
        fix n1 n2
        assume n: "?n = n1 @ n2" "n1 \<noteq> []" "n2 \<noteq> []" and suf: "suffix n1 ?m"
        from suf n(2) have "last n1 = last ?m" by (rule suffix_last)
        with m(3) n(2) have "41 \<in> set n1" using last_in_set by metis
        with n(1) have "41 \<in> set ?n" by (metis Un_iff set_append)
        with p show False by blast
      qed
      with ws' have "\<exists>ws. list_all is_ws ws \<and> sublist (buildTypesRegex @ ws @ [123]) c"
        unfolding c by blast
      with assms show False unfolding find_anchor_None_iff by blast
    qed
  qed
qed

subsection \<open>The three steps together\<close>

text \<open>
  C7. The text transform of the Gradle patcher is idempotent: applied to its own result it
  changes nothing, so a second run adds no import, no block and no line.
\<close>

theorem transform_idempotent: "transform (transform content) = transform content"
proof -
  define y where "y = fst (add_imports content)"
  define z where "z = fst (add_signing_config y)"
  define w where "w = fst (apply_release_config z)"
  have w: "transform content = w" by (simp add: transform_steps w_def z_def y_def)
  have nb: "98 \<notin> set imp" "123 \<notin> set imp" if "imp \<in> set IMPORTS_TO_ADD" for imp
    using that by (auto simp: IMPORTS_TO_ADD_def str_def)
  have "\<forall>imp\<in>set IMPORTS_TO_ADD. sublist imp w"
  proof
    fix imp assume i: "imp \<in> set IMPORTS_TO_ADD"
    with add_imports_has_imports [of content] have "sublist imp y" by (simp add: y_def)
    from add_signing_config_keeps [OF this nb(1) [OF i]] have "sublist imp z" by (simp add: z_def)
    from apply_release_config_keeps [OF this nb(2) [OF i]] show "sublist imp w" by (simp add: w_def)
  qed
  then have 1: "fst (add_imports w) = w" by (rule add_imports_skip)
  have 2: "fst (add_signing_config w) = w"
  proof -
    from add_signing_config_result [of y] show ?thesis
    proof (elim disjE conjE)
      assume \<open>sublist (str ''create("release")'') (fst (add_signing_config y))\<close>
        and \<open>sublist (str ''keystore.properties'') (fst (add_signing_config y))\<close>
      then have \<open>sublist (str ''create("release")'') w\<close> \<open>sublist (str ''keystore.properties'') w\<close>
        unfolding w_def z_def by (auto intro!: apply_release_config_keeps simp: str_def)
      then show ?thesis by (rule add_signing_config_skip)
    next
      assume "fst (add_signing_config y) = y" and "find_anchor buildTypesRegex y = None"
      then have "find_anchor buildTypesRegex w = None"
        unfolding w_def z_def by (simp add: apply_release_config_no_anchor)
      then show ?thesis by (rule add_signing_config_none)
    qed
  qed
  have 3: "fst (apply_release_config w) = w"
    unfolding w_def by (rule apply_release_config_idem)
  show ?thesis unfolding w by (simp add: transform_steps 1 2 3)
qed

subsection \<open>The script as a whole\<close>

lemma patch_fst: "fst (patch c) = transform c"
  by (simp add: transform_def)

lemma patch_snd:
  "snd (patch c) =
     snd (add_imports c) @ snd (add_signing_config (fst (add_imports c)))
       @ snd (apply_release_config (fst (add_signing_config (fst (add_imports c)))))"
  by (simp add: patch_def split_beta)

lemma main_missing:
  assumes "\<not> gradle_exists fs"
  shows "main fs = \<lparr>status = 1, printed = [(Err, GradleFileNotFound), (Err, RunTauriAndroidInit)],
           keystore_copied = False, written = None\<rparr>"
  using assms by (simp add: main_def)

lemma add_signing_config_error:
  assumes "find_anchor buildTypesRegex c = None"
    and \<open>\<not> (includes_str c (str ''create("release")'') \<and> includes_str c (str ''keystore.properties''))\<close>
  shows "add_signing_config c = (c, [(Err, BuildTypesNotFound)])"
  using assms by (auto simp: add_signing_config_def)

lemma apply_release_config_error:
  assumes "find_anchor releaseBlockRegex c = None"
    and \<open>\<not> includes_str c (str ''signingConfig = signingConfigs.getByName("release")'')\<close>
  shows "apply_release_config c = (c, [(Err, ReleaseBlockNotFound)])"
  using assms by (auto simp: apply_release_config_def)

lemma step_messages:
  "\<exists>m. snd (add_imports c) = [m]" "\<exists>m. snd (add_signing_config c) = [m]"
  "\<exists>m. snd (apply_release_config c) = [m]"
  by (auto simp: add_imports_def add_signing_config_def apply_release_config_def Let_def
      split: option.splits)

text \<open>A step that succeeds makes the content longer; a step that does not leaves it as it is.\<close>

lemma add_imports_effect:
  "(snd (add_imports c) = [(Log, AddedImports)] \<and> length c < length (fst (add_imports c)))
   \<or> add_imports c = (c, [(Log, ImportsAlreadyPresent)])"
  by (simp add: add_imports_def Let_def)

lemma add_signing_config_effect:
  "(snd (add_signing_config c) = [(Log, AddedSigningConfigs)]
      \<and> length c < length (fst (add_signing_config c)))
   \<or> add_signing_config c = (c, [(Err, BuildTypesNotFound)])
   \<or> add_signing_config c = (c, [(Log, SigningConfigAlreadyPresent)])"
proof (cases "find_anchor buildTypesRegex c")
  case None
  then show ?thesis by (simp add: add_signing_config_def)
next
  case (Some t)
  obtain before matched after where t: "t = (before, matched, after)" by (cases t)
  from find_anchorD [OF Some [unfolded t]] have "c = before @ matched @ after" by simp
  then have "length c = length before + length matched + length after" by simp
  then show ?thesis by (simp add: add_signing_config_def Some t str_def)
qed

lemma apply_release_config_effect:
  "(snd (apply_release_config c) = [(Log, AppliedSigningConfig)]
      \<and> length c < length (fst (apply_release_config c)))
   \<or> apply_release_config c = (c, [(Err, ReleaseBlockNotFound)])
   \<or> apply_release_config c = (c, [(Log, ReleaseAlreadyConfigured)])"
proof (cases "find_anchor releaseBlockRegex c")
  case None
  then show ?thesis by (simp add: apply_release_config_def)
next
  case (Some t)
  obtain before matched after where t: "t = (before, matched, after)" by (cases t)
  from find_anchorD [OF Some [unfolded t]] have "c = before @ matched @ after" by simp
  then have "length c = length before + length matched + length after" by simp
  then show ?thesis by (simp add: apply_release_config_def Some t str_def)
qed

lemma apply_release_config_edit:
  assumes "find_anchor releaseBlockRegex c = Some (before, matched, after)"
    and \<open>\<not> includes_str c (str ''signingConfig = signingConfigs.getByName("release")'')\<close>
  shows "apply_release_config c =
     (before @ matched @ str ''\<newline>'' @ RELEASE_CONFIG_LINE @ after, [(Log, AppliedSigningConfig)])"
  using assms by (simp add: apply_release_config_def)

lemma changed_iff_success:
  "transform c \<noteq> c \<longleftrightarrow>
     (Log, AddedImports) \<in> set (snd (patch c)) \<or> (Log, AddedSigningConfigs) \<in> set (snd (patch c))
     \<or> (Log, AppliedSigningConfig) \<in> set (snd (patch c))"
proof -
  define c1 where "c1 = fst (add_imports c)"
  define c2 where "c2 = fst (add_signing_config c1)"
  define c3 where "c3 = fst (apply_release_config c2)"
  have t: "transform c = c3" by (simp add: transform_steps c1_def c2_def c3_def)
  have p: "snd (patch c) = snd (add_imports c) @ snd (add_signing_config c1)
      @ snd (apply_release_config c2)" by (simp add: patch_snd c1_def c2_def)
  from add_imports_effect [of c]
  have 1: "length c \<le> length c1"
    "c1 \<noteq> c \<longleftrightarrow> snd (add_imports c) = [(Log, AddedImports)]"
    "snd (add_imports c) = [(Log, AddedImports)] \<or> snd (add_imports c) = [(Log, ImportsAlreadyPresent)]"
    unfolding c1_def by auto
  from add_signing_config_effect [of c1]
  have 2: "length c1 \<le> length c2"
    "c2 \<noteq> c1 \<longleftrightarrow> snd (add_signing_config c1) = [(Log, AddedSigningConfigs)]"
    "snd (add_signing_config c1) = [(Log, AddedSigningConfigs)]
     \<or> snd (add_signing_config c1) = [(Err, BuildTypesNotFound)]
     \<or> snd (add_signing_config c1) = [(Log, SigningConfigAlreadyPresent)]"
    unfolding c2_def by auto
  from apply_release_config_effect [of c2]
  have 3: "length c2 \<le> length c3"
    "c3 \<noteq> c2 \<longleftrightarrow> snd (apply_release_config c2) = [(Log, AppliedSigningConfig)]"
    "snd (apply_release_config c2) = [(Log, AppliedSigningConfig)]
     \<or> snd (apply_release_config c2) = [(Err, ReleaseBlockNotFound)]
     \<or> snd (apply_release_config c2) = [(Log, ReleaseAlreadyConfigured)]"
    unfolding c3_def by auto
  have l: "length c1 < length c2" if "c2 \<noteq> c1"
    using add_signing_config_effect [of c1] that unfolding c2_def by auto
  have l1: "length c < length c1" if "c1 \<noteq> c"
    using add_imports_effect [of c] that unfolding c1_def by auto
  have l3: "length c2 < length c3" if "c3 \<noteq> c2"
    using apply_release_config_effect [of c2] that unfolding c3_def by auto
  have "c3 \<noteq> c \<longleftrightarrow> c1 \<noteq> c \<or> c2 \<noteq> c1 \<or> c3 \<noteq> c2"
  proof
    assume "c3 \<noteq> c" then show "c1 \<noteq> c \<or> c2 \<noteq> c1 \<or> c3 \<noteq> c2" by auto
  next
    assume "c1 \<noteq> c \<or> c2 \<noteq> c1 \<or> c3 \<noteq> c2"
    then have "length c < length c3" using l l1 l3 1(1) 2(1) 3(1) by fastforce
    then show "c3 \<noteq> c" by auto
  qed
  also have "\<dots> \<longleftrightarrow> (Log, AddedImports) \<in> set (snd (patch c))
     \<or> (Log, AddedSigningConfigs) \<in> set (snd (patch c))
     \<or> (Log, AppliedSigningConfig) \<in> set (snd (patch c))"
    unfolding p 1(2) 2(2) 3(2) using 1(3) 2(3) 3(3) by auto
  finally show ?thesis unfolding t .
qed

lemma main_status_eq:
  "status (main fs) =
     (if \<not> gradle_exists fs \<or> gradle_read fs = None \<or>
         (gradle_write_throws fs \<and> (\<exists>c. gradle_read fs = Some c \<and> transform c \<noteq> c))
      then 1 else 0)"
  by (auto simp: main_def transform_def split_beta Let_def split: option.splits)

lemma main_reads:
  assumes "gradle_exists fs" "gradle_read fs = Some c"
  shows "written (main fs) =
           (if transform c \<noteq> c \<and> \<not> gradle_write_throws fs then Some (transform c) else None)"
    and "keystore_copied (main fs) \<longleftrightarrow> keystore_exists fs \<and> \<not> keystore_copy_throws fs"
    and "printed (main fs) =
           (if keystore_exists fs
            then (if keystore_copy_throws fs then [(Err, ErrorCopyingKeystore)]
                  else [(Log, CopiedKeystore)])
            else [(Warn, KeystoreNotFound), (Warn, KeystoreExpectedAt),
                  (Warn, KeystoreBuildUsuallyFails)])
           @ [(Log, ReadingGradleFile)] @ snd (patch c) @
           [if transform c = c then (Log, AlreadyUpToDate)
            else if gradle_write_throws fs then (Err, UncaughtException)
            else (Log, UpdatedSuccessfully)]"
  using assms by (simp_all add: main_def transform_def split_beta Let_def)


text \<open>
  C8, as amended. The patcher calls \<^verbatim>\<open>process.exit(1)\<close> exactly when the Gradle file is
  missing. When the file is there, the process still ends with status 1 if reading it
  throws, or if writing the changed content throws, since neither call is under \<^verbatim>\<open>try\<close>;
  in every other case it ends with status 0. When the file has been read: a missing
  keystore file gives three warnings and nothing else, and the run goes on; the three
  steps run in order, each on the content the step before has left, and each prints its
  one message; the content is changed exactly when a step has reported an insertion, and
  the changed content is written. A \<^verbatim>\<open>buildTypes {\<close> that is not found is printed as an
  error and step 2.3 still runs on the content of step 2.1: if it finds
  \<^verbatim>\<open>getByName("release") {\<close> its line is inserted and the result is written. A
  \<^verbatim>\<open>getByName("release") {\<close> that is not found is printed as an error and what the steps
  2.1 and 2.2 have changed is written.
\<close>

theorem gradle_patcher_outcome:
  \<open>(status (main fs) =
      (if \<not> gradle_exists fs \<or> gradle_read fs = None \<or>
          (gradle_write_throws fs \<and> (\<exists>c. gradle_read fs = Some c \<and> transform c \<noteq> c))
       then 1 else 0))
   \<and> (\<not> gradle_exists fs \<longrightarrow>
        printed (main fs) = [(Err, GradleFileNotFound), (Err, RunTauriAndroidInit)]
        \<and> written (main fs) = None \<and> \<not> keystore_copied (main fs))
   \<and> (gradle_exists fs \<and> gradle_read fs = Some c \<longrightarrow>
        written (main fs) =
          (if transform c \<noteq> c \<and> \<not> gradle_write_throws fs then Some (transform c) else None)
      \<and> (keystore_copied (main fs) \<longleftrightarrow> keystore_exists fs \<and> \<not> keystore_copy_throws fs)
      \<and> printed (main fs) =
           (if keystore_exists fs
            then (if keystore_copy_throws fs then [(Err, ErrorCopyingKeystore)]
                  else [(Log, CopiedKeystore)])
            else [(Warn, KeystoreNotFound), (Warn, KeystoreExpectedAt),
                  (Warn, KeystoreBuildUsuallyFails)])
           @ [(Log, ReadingGradleFile)] @ snd (patch c) @
           [if transform c = c then (Log, AlreadyUpToDate)
            else if gradle_write_throws fs then (Err, UncaughtException)
            else (Log, UpdatedSuccessfully)])
   \<and> transform c = fst (apply_release_config (fst (add_signing_config (fst (add_imports c)))))
   \<and> snd (patch c) =
       snd (add_imports c) @ snd (add_signing_config (fst (add_imports c)))
         @ snd (apply_release_config (fst (add_signing_config (fst (add_imports c)))))
   \<and> (transform c \<noteq> c \<longleftrightarrow>
        (Log, AddedImports) \<in> set (snd (patch c))
        \<or> (Log, AddedSigningConfigs) \<in> set (snd (patch c))
        \<or> (Log, AppliedSigningConfig) \<in> set (snd (patch c)))
   \<and> (find_anchor buildTypesRegex (fst (add_imports c)) = None
        \<and> \<not> (includes_str (fst (add_imports c)) (str ''create("release")'')
             \<and> includes_str (fst (add_imports c)) (str ''keystore.properties''))
      \<longrightarrow> snd (patch c) =
            snd (add_imports c) @ [(Err, BuildTypesNotFound)]
              @ snd (apply_release_config (fst (add_imports c)))
          \<and> transform c = fst (apply_release_config (fst (add_imports c)))
          \<and> (find_anchor releaseBlockRegex (fst (add_imports c)) = Some (before, matched, after)
               \<and> \<not> includes_str (fst (add_imports c))
                     (str ''signingConfig = signingConfigs.getByName("release")'')
             \<longrightarrow> snd (patch c) =
                   snd (add_imports c) @ [(Err, BuildTypesNotFound), (Log, AppliedSigningConfig)]
                 \<and> transform c = before @ matched @ str ''\<newline>'' @ RELEASE_CONFIG_LINE @ after
                 \<and> transform c \<noteq> c))
   \<and> (find_anchor releaseBlockRegex (fst (add_signing_config (fst (add_imports c)))) = None
        \<and> \<not> includes_str (fst (add_signing_config (fst (add_imports c))))
              (str ''signingConfig = signingConfigs.getByName("release")'')
      \<longrightarrow> snd (patch c) =
            snd (add_imports c) @ snd (add_signing_config (fst (add_imports c)))
              @ [(Err, ReleaseBlockNotFound)]
          \<and> transform c = fst (add_signing_config (fst (add_imports c))))\<close>
proof (intro conjI impI)
  show "status (main fs) =
      (if \<not> gradle_exists fs \<or> gradle_read fs = None \<or>
          (gradle_write_throws fs \<and> (\<exists>c. gradle_read fs = Some c \<and> transform c \<noteq> c))
       then 1 else 0)"
    by (rule main_status_eq)
  show "transform c = fst (apply_release_config (fst (add_signing_config (fst (add_imports c)))))"
    by (rule transform_steps)
  show "snd (patch c) =
       snd (add_imports c) @ snd (add_signing_config (fst (add_imports c)))
         @ snd (apply_release_config (fst (add_signing_config (fst (add_imports c)))))"
    by (rule patch_snd)
  show "transform c \<noteq> c \<longleftrightarrow>
        (Log, AddedImports) \<in> set (snd (patch c))
        \<or> (Log, AddedSigningConfigs) \<in> set (snd (patch c))
        \<or> (Log, AppliedSigningConfig) \<in> set (snd (patch c))"
    by (rule changed_iff_success)
next
  assume "\<not> gradle_exists fs"
  from main_missing [OF this]
  show "printed (main fs) = [(Err, GradleFileNotFound), (Err, RunTauriAndroidInit)]"
    "written (main fs) = None" "\<not> keystore_copied (main fs)"
    by simp_all
next
  assume "gradle_exists fs \<and> gradle_read fs = Some c"
  then have a: "gradle_exists fs" "gradle_read fs = Some c" by simp_all
  show "written (main fs) =
          (if transform c \<noteq> c \<and> \<not> gradle_write_throws fs then Some (transform c) else None)"
    by (rule main_reads(1) [OF a])
  show "keystore_copied (main fs) \<longleftrightarrow> keystore_exists fs \<and> \<not> keystore_copy_throws fs"
    by (rule main_reads(2) [OF a])
  show "printed (main fs) =
           (if keystore_exists fs
            then (if keystore_copy_throws fs then [(Err, ErrorCopyingKeystore)]
                  else [(Log, CopiedKeystore)])
            else [(Warn, KeystoreNotFound), (Warn, KeystoreExpectedAt),
                  (Warn, KeystoreBuildUsuallyFails)])
           @ [(Log, ReadingGradleFile)] @ snd (patch c) @
           [if transform c = c then (Log, AlreadyUpToDate)
            else if gradle_write_throws fs then (Err, UncaughtException)
            else (Log, UpdatedSuccessfully)]"
    by (rule main_reads(3) [OF a])
next
  assume \<open>find_anchor buildTypesRegex (fst (add_imports c)) = None
        \<and> \<not> (includes_str (fst (add_imports c)) (str ''create("release")'')
             \<and> includes_str (fst (add_imports c)) (str ''keystore.properties''))\<close>
  then have s: "add_signing_config (fst (add_imports c))
      = (fst (add_imports c), [(Err, BuildTypesNotFound)])"
    by (intro add_signing_config_error) simp_all
  show p: "snd (patch c) =
            snd (add_imports c) @ [(Err, BuildTypesNotFound)]
              @ snd (apply_release_config (fst (add_imports c)))"
    by (simp add: patch_snd s)
  show t: "transform c = fst (apply_release_config (fst (add_imports c)))"
    by (simp add: transform_steps s)
  assume \<open>find_anchor releaseBlockRegex (fst (add_imports c)) = Some (before, matched, after)
               \<and> \<not> includes_str (fst (add_imports c))
                     (str ''signingConfig = signingConfigs.getByName("release")'')\<close>
  then have r: "apply_release_config (fst (add_imports c)) =
      (before @ matched @ str ''\<newline>'' @ RELEASE_CONFIG_LINE @ after, [(Log, AppliedSigningConfig)])"
    by (intro apply_release_config_edit) simp_all
  show q: "snd (patch c) =
      snd (add_imports c) @ [(Err, BuildTypesNotFound), (Log, AppliedSigningConfig)]"
    by (simp add: p r)
  show "transform c = before @ matched @ str ''\<newline>'' @ RELEASE_CONFIG_LINE @ after"
    by (simp add: t r)
  show "transform c \<noteq> c" unfolding changed_iff_success q by simp
next
  assume \<open>find_anchor releaseBlockRegex (fst (add_signing_config (fst (add_imports c)))) = None
        \<and> \<not> includes_str (fst (add_signing_config (fst (add_imports c))))
              (str ''signingConfig = signingConfigs.getByName("release")'')\<close>
  then have r: "apply_release_config (fst (add_signing_config (fst (add_imports c))))
       = (fst (add_signing_config (fst (add_imports c))), [(Err, ReleaseBlockNotFound)])"
    by (intro apply_release_config_error) simp_all
  show "snd (patch c) =
            snd (add_imports c) @ snd (add_signing_config (fst (add_imports c)))
              @ [(Err, ReleaseBlockNotFound)]"
    by (simp add: patch_snd r)
  show "transform c = fst (add_signing_config (fst (add_imports c)))"
    by (simp add: transform_steps r)
qed

lemma bare_imports:
  "add_imports (str ''android { }'') =
     (str ''import java.io.FileInputStream\<newline>import java.util.Properties\<newline>android { }'',
      [(Log, AddedImports)])"
  by (simp add: add_imports_def IMPORTS_TO_ADD_def str_def)

lemma bare_no_anchor:
  "find_anchor buildTypesRegex (str ''import java.io.FileInputStream\<newline>import java.util.Properties\<newline>android { }'') = None"
  "find_anchor releaseBlockRegex (str ''import java.io.FileInputStream\<newline>import java.util.Properties\<newline>android { }'') = None"
  by (simp_all add: str_def buildTypesRegex_def releaseBlockRegex_def anchor_at_def)

lemma bare_no_marks:
  \<open>\<not> includes_str (str ''import java.io.FileInputStream\<newline>import java.util.Properties\<newline>android { }'')
      (str ''create("release")'')\<close>
  \<open>\<not> includes_str (str ''import java.io.FileInputStream\<newline>import java.util.Properties\<newline>android { }'')
      (str ''signingConfig = signingConfigs.getByName("release")'')\<close>
  by (simp_all add: str_def)

lemma release_only_imports:
  \<open>add_imports (str ''getByName("release") {}'') =
     (str ''import java.io.FileInputStream\<newline>import java.util.Properties\<newline>getByName("release") {}'',
      [(Log, AddedImports)])\<close>
  by (simp add: add_imports_def IMPORTS_TO_ADD_def str_def)

lemma release_only_no_anchor:
  \<open>find_anchor buildTypesRegex (str ''import java.io.FileInputStream\<newline>import java.util.Properties\<newline>getByName("release") {}'') = None\<close>
  by (simp add: str_def buildTypesRegex_def anchor_at_def)

lemma release_only_anchor:
  \<open>find_anchor releaseBlockRegex (str ''import java.io.FileInputStream\<newline>import java.util.Properties\<newline>getByName("release") {}'')
     = Some (str ''import java.io.FileInputStream\<newline>import java.util.Properties\<newline>'',
         str ''getByName("release") {'', str ''}'')\<close>
  by (simp add: str_def releaseBlockRegex_def anchor_at_def is_ws_def)

lemma release_only_no_marks:
  \<open>\<not> includes_str (str ''import java.io.FileInputStream\<newline>import java.util.Properties\<newline>getByName("release") {}'')
      (str ''create("release")'')\<close>
  \<open>\<not> includes_str (str ''import java.io.FileInputStream\<newline>import java.util.Properties\<newline>getByName("release") {}'')
      (str ''signingConfig = signingConfigs.getByName("release")'')\<close>
  by (simp_all add: str_def)


theorem gradle_patcher_outcome_witness:
  \<open>\<not> gradle_exists missing_project \<and> status (main missing_project) = 1
   \<and> written (main missing_project) = None
   \<and> gradle_exists bare_project \<and> gradle_read bare_project = Some (str ''android { }'')
   \<and> \<not> keystore_exists bare_project
   \<and> status (main bare_project) = 0
   \<and> written (main bare_project) =
       Some (str ''import java.io.FileInputStream\<newline>import java.util.Properties\<newline>android { }'')
   \<and> printed (main bare_project) =
       [(Warn, KeystoreNotFound), (Warn, KeystoreExpectedAt), (Warn, KeystoreBuildUsuallyFails),
        (Log, ReadingGradleFile), (Log, AddedImports), (Err, BuildTypesNotFound),
        (Err, ReleaseBlockNotFound), (Log, UpdatedSuccessfully)]
   \<and> gradle_exists release_only_project
   \<and> gradle_read release_only_project = Some (str ''getByName("release") {}'')
   \<and> status (main release_only_project) = 0
   \<and> keystore_copied (main release_only_project)
   \<and> written (main release_only_project) =
       Some (str ''import java.io.FileInputStream\<newline>import java.util.Properties\<newline>''
             @ str ''getByName("release") {'' @ str ''\<newline>'' @ RELEASE_CONFIG_LINE @ str ''}'')
   \<and> printed (main release_only_project) =
       [(Log, CopiedKeystore), (Log, ReadingGradleFile), (Log, AddedImports),
        (Err, BuildTypesNotFound), (Log, AppliedSigningConfig), (Log, UpdatedSuccessfully)]\<close>
proof -
  let ?c = "str ''android { }''"
  let ?c1 = "str ''import java.io.FileInputStream\<newline>import java.util.Properties\<newline>android { }''"
  let ?d = \<open>str ''getByName("release") {}''\<close>
  let ?b = "str ''import java.io.FileInputStream\<newline>import java.util.Properties\<newline>''"
  let ?m = \<open>str ''getByName("release") {''\<close>
  let ?a = "str ''}''"
  have m: "\<not> gradle_exists missing_project" by (simp add: missing_project_def)
  have b: "gradle_exists bare_project \<and> gradle_read bare_project = Some ?c"
    "\<not> keystore_exists bare_project" "\<not> gradle_write_throws bare_project"
    by (simp_all add: bare_project_def)
  have r: "gradle_exists release_only_project \<and> gradle_read release_only_project = Some ?d"
    "keystore_exists release_only_project" "\<not> keystore_copy_throws release_only_project"
    "\<not> gradle_write_throws release_only_project"
    by (simp_all add: release_only_project_def)
  note M = gradle_patcher_outcome [of missing_project ?c "[]" "[]" "[]"]
  from M have "status (main missing_project) =
      (if \<not> gradle_exists missing_project \<or> gradle_read missing_project = None \<or>
          (gradle_write_throws missing_project
           \<and> (\<exists>c. gradle_read missing_project = Some c \<and> transform c \<noteq> c))
       then 1 else 0)" by (rule conjunct1)
  with m have 1: "status (main missing_project) = 1" by simp
  from M [THEN conjunct2, THEN conjunct1, rule_format, OF m]
  have 2: "written (main missing_project) = None" by simp
  note B = gradle_patcher_outcome [of bare_project ?c "[]" "[]" "[]"]
  from B have "status (main bare_project) =
      (if \<not> gradle_exists bare_project \<or> gradle_read bare_project = None \<or>
          (gradle_write_throws bare_project
           \<and> (\<exists>c. gradle_read bare_project = Some c \<and> transform c \<noteq> c))
       then 1 else 0)" by (rule conjunct1)
  with b have 3: "status (main bare_project) = 0" by simp
  note B3 = B [THEN conjunct2, THEN conjunct2, THEN conjunct1, rule_format, OF b(1)]
  note Bt = B [THEN conjunct2, THEN conjunct2, THEN conjunct2]
  have bi: "fst (add_imports ?c) = ?c1" "snd (add_imports ?c) = [(Log, AddedImports)]"
    by (simp_all add: bare_imports)
  have bh: \<open>find_anchor buildTypesRegex (fst (add_imports ?c)) = None
        \<and> \<not> (includes_str (fst (add_imports ?c)) (str ''create("release")'')
             \<and> includes_str (fst (add_imports ?c)) (str ''keystore.properties''))\<close>
    unfolding bi by (simp add: bare_no_anchor bare_no_marks)
  note B7 = Bt [THEN conjunct2, THEN conjunct2, THEN conjunct2, THEN conjunct1, rule_format, OF bh]
  have bs: "fst (add_signing_config (fst (add_imports ?c))) = ?c1"
    unfolding bi by (simp add: add_signing_config_none bare_no_anchor)
  have bg: \<open>find_anchor releaseBlockRegex (fst (add_signing_config (fst (add_imports ?c)))) = None
        \<and> \<not> includes_str (fst (add_signing_config (fst (add_imports ?c))))
              (str ''signingConfig = signingConfigs.getByName("release")'')\<close>
    unfolding bs by (simp add: bare_no_anchor bare_no_marks)
  note B8 = Bt [THEN conjunct2, THEN conjunct2, THEN conjunct2, THEN conjunct2, rule_format, OF bg]
  from B8 have bt: "transform ?c = ?c1" unfolding bs by simp
  have bp: "snd (patch ?c) = [(Log, AddedImports), (Err, BuildTypesNotFound),
      (Err, ReleaseBlockNotFound)]"
    using B8 [THEN conjunct1] add_signing_config_error [of ?c1]
    unfolding bi by (simp add: bare_no_anchor bare_no_marks)
  have ne: "?c1 \<noteq> ?c" by (simp add: str_def)
  from B3 [THEN conjunct1] have 4: "written (main bare_project) = Some ?c1"
    unfolding bt using ne b(3) by simp
  from B3 [THEN conjunct2, THEN conjunct2]
  have 5: "printed (main bare_project) =
       [(Warn, KeystoreNotFound), (Warn, KeystoreExpectedAt), (Warn, KeystoreBuildUsuallyFails),
        (Log, ReadingGradleFile), (Log, AddedImports), (Err, BuildTypesNotFound),
        (Err, ReleaseBlockNotFound), (Log, UpdatedSuccessfully)]"
    unfolding bt bp using ne b(2,3) by simp
  note R = gradle_patcher_outcome [of release_only_project ?d ?b ?m ?a]
  from R have "status (main release_only_project) =
      (if \<not> gradle_exists release_only_project \<or> gradle_read release_only_project = None \<or>
          (gradle_write_throws release_only_project
           \<and> (\<exists>c. gradle_read release_only_project = Some c \<and> transform c \<noteq> c))
       then 1 else 0)" by (rule conjunct1)
  with r have 6: "status (main release_only_project) = 0" by simp
  note R3 = R [THEN conjunct2, THEN conjunct2, THEN conjunct1, rule_format, OF r(1)]
  note Rt = R [THEN conjunct2, THEN conjunct2, THEN conjunct2]
  have ri: \<open>fst (add_imports ?d) = str ''import java.io.FileInputStream\<newline>import java.util.Properties\<newline>getByName("release") {}''\<close>
    "snd (add_imports ?d) = [(Log, AddedImports)]"
    by (simp_all add: release_only_imports)
  have rh: \<open>find_anchor buildTypesRegex (fst (add_imports ?d)) = None
        \<and> \<not> (includes_str (fst (add_imports ?d)) (str ''create("release")'')
             \<and> includes_str (fst (add_imports ?d)) (str ''keystore.properties''))\<close>
    unfolding ri by (simp add: release_only_no_anchor release_only_no_marks)
  have rg: \<open>find_anchor releaseBlockRegex (fst (add_imports ?d)) = Some (?b, ?m, ?a)
               \<and> \<not> includes_str (fst (add_imports ?d))
                     (str ''signingConfig = signingConfigs.getByName("release")'')\<close>
    unfolding ri by (simp add: release_only_anchor release_only_no_marks)
  note R7 = Rt [THEN conjunct2, THEN conjunct2, THEN conjunct2, THEN conjunct1, rule_format, OF rh,
      THEN conjunct2, THEN conjunct2, rule_format, OF rg]
  from R7 [THEN conjunct1]
  have rp: "snd (patch ?d) = [(Log, AddedImports), (Err, BuildTypesNotFound), (Log, AppliedSigningConfig)]"
    unfolding ri(2) by simp
  note rt = R7 [THEN conjunct2, THEN conjunct1]
  note rn = R7 [THEN conjunct2, THEN conjunct2]
  from rn r(4) have "written (main release_only_project) = Some (transform ?d)"
    unfolding R3 [THEN conjunct1] by simp
  then have 7: "written (main release_only_project) =
      Some (?b @ ?m @ str ''\<newline>'' @ RELEASE_CONFIG_LINE @ ?a)"
    unfolding rt .
  from R3 [THEN conjunct2, THEN conjunct1] r(2,3)
  have 8: "keystore_copied (main release_only_project)" by simp
  from R3 [THEN conjunct2, THEN conjunct2] rn r(2,3,4)
  have 9: "printed (main release_only_project) =
       [(Log, CopiedKeystore), (Log, ReadingGradleFile), (Log, AddedImports),
        (Err, BuildTypesNotFound), (Log, AppliedSigningConfig), (Log, UpdatedSuccessfully)]"
    unfolding rp by simp
  from m 1 2 b(1,2) 3 4 5 r(1) 6 7 8 9 show ?thesis by blast
qed

text \<open>The Gradle file exists, reading it throws, and the process ends with status 1.\<close>

theorem gradle_patcher_unreadable_counterexample:
  "gradle_exists \<lparr>gradle_exists = True, gradle_read = None, gradle_write_throws = False,
       keystore_exists = True, keystore_copy_throws = False\<rparr>
   \<and> status (main \<lparr>gradle_exists = True, gradle_read = None, gradle_write_throws = False,
       keystore_exists = True, keystore_copy_throws = False\<rparr>) = 1"
  by (simp add: main_def)

end
